theory Spec2Isabelle
  imports Main "HOL-Library.Sublist" "HOL-Library.List_Lexorder" "HOL-Library.Char_ord"
begin

section \<open>The release deploy strategy of fabricext (releases/release.py)\<close>

text \<open>
  The module is Python 2 code on top of Fabric 1.x: a class \<^verbatim>\<open>Release\<close> (a subclass of
  \<^verbatim>\<open>Transaction\<close>) that is used as a context manager around a deploy. Everything it
  does to the remote host goes through Fabric's \<^verbatim>\<open>run\<close> and \<^verbatim>\<open>exists\<close>. The embedding
  has three layers: release names (pure string functions), the remote host (a small file
  system on which the six shell commands of the module are interpreted), and the methods
  of the class as state transformers on a \<open>world\<close> that holds the object, the host,
  Fabric's \<^verbatim>\<open>env.base_dir\<close>, the wall clock and the warnings printed so far.
\<close>

subsection \<open>Release names\<close>

text \<open>
  \<^verbatim>\<open>datetime.now()\<close> and \<^verbatim>\<open>date.today()\<close> are two separate readings of the clock.
  Python's \<^verbatim>\<open>date.isoformat()\<close> is \<^verbatim>\<open>'%04d-%02d-%02d'\<close>; \<^verbatim>\<open>'{1}'.format(seconds)\<close> is the
  plain decimal numeral of an int, without padding.
\<close>

record pydate =
  year :: nat
  month :: nat
  day :: nat

record pydatetime = pydate +
  hour :: nat
  minute :: nat
  second :: nat

definition digit_char :: "nat \<Rightarrow> char" where
  "digit_char n = ''0123456789'' ! n"

function str_nat :: "nat \<Rightarrow> string" where
  "str_nat n = (if n < 10 then [digit_char n] else str_nat (n div 10) @ [digit_char (n mod 10)])"
  by pat_completeness auto
termination
  by (relation "measure id") auto

declare str_nat.simps [simp del]

definition zfill :: "nat \<Rightarrow> string \<Rightarrow> string" where
  "zfill w s = replicate (w - length s) (CHR ''0'') @ s"

definition isoformat :: "pydate \<Rightarrow> string" where
  "isoformat d =
     zfill 4 (str_nat (year d)) @ ''-'' @ zfill 2 (str_nat (month d)) @ ''-'' @ zfill 2 (str_nat (day d))"

text \<open>
  \<^verbatim>\<open>
  def _gen_rel(self):
      curr_time = datetime.now()
      seconds = (curr_time.second + (curr_time.minute * 60) + (curr_time.hour * 3600))
      return "{0}.{1}".format(date.today().isoformat(), seconds)
  \<close>
\<close>

definition gen_rel :: "pydatetime \<Rightarrow> pydate \<Rightarrow> string" where
  "gen_rel curr_time today =
     (let seconds = second curr_time + minute curr_time * 60 + hour curr_time * 3600
      in isoformat today @ ''.'' @ str_nat seconds)"

text \<open>
  Notions for statements about the order of release names: the seconds since midnight
  that \<open>gen_rel\<close> computes, the ranges of Python's \<^verbatim>\<open>date\<close> (years up to 9999),
  the calendar order of dates, and the decimal digits of a number at a fixed width.
\<close>

definition seconds_of :: "pydatetime \<Rightarrow> nat" where
  "seconds_of t = second t + minute t * 60 + hour t * 3600"

definition valid_date :: "pydate \<Rightarrow> bool" where
  "valid_date d = (year d \<le> 9999 \<and> month d \<le> 12 \<and> day d \<le> 31)"

definition date_before :: "pydate \<Rightarrow> pydate \<Rightarrow> bool" where
  "date_before d1 d2 =
     (year d1 < year d2 \<or> (year d1 = year d2 \<and>
        (month d1 < month d2 \<or> (month d1 = month d2 \<and> day d1 < day d2))))"

fun digits :: "nat \<Rightarrow> nat \<Rightarrow> string" where
  "digits 0 n = []"
| "digits (Suc w) n = digits w (n div 10) @ [digit_char (n mod 10)]"

subsection \<open>Paths\<close>

text \<open>
  A path is the list of its components, from the root. \<^verbatim>\<open>os.path.join(a, b)\<close> appends the
  components of \<open>b\<close> to \<open>a\<close>, unless \<open>b\<close> is absolute, in which case the result is \<open>b\<close>.
  Empty components (doubled or trailing slashes) name the same file and are dropped.
  The components \<^verbatim>\<open>.\<close> and \<^verbatim>\<open>..\<close> are not interpreted, and a relative base path is
  read from the root.
\<close>

type_synonym path = "string list"

fun split_on :: "(char \<Rightarrow> bool) \<Rightarrow> string \<Rightarrow> string \<Rightarrow> string list" where
  "split_on sep acc [] = (if acc = [] then [] else [acc])"
| "split_on sep acc (c # cs) =
     (if sep c then (if acc = [] then split_on sep [] cs else acc # split_on sep [] cs)
      else split_on sep (acc @ [c]) cs)"

definition components :: "string \<Rightarrow> path" where
  "components s = split_on (\<lambda>c. c = CHR ''/'') [] s"

definition os_path_join :: "path \<Rightarrow> string \<Rightarrow> path" where
  "os_path_join a b =
     (case b of
        [] \<Rightarrow> a
      | c # _ \<Rightarrow> if c = CHR ''/'' then components b else a @ components b)"

text \<open>Python 2's \<^verbatim>\<open>str.split()\<close> without arguments: split at runs of whitespace.\<close>

definition is_space :: "char \<Rightarrow> bool" where
  "is_space c = (c \<in> set [CHR '' '', CHR 0x09, CHR 0x0A, CHR 0x0B, CHR 0x0C, CHR 0x0D])"

definition py_split :: "string \<Rightarrow> string list" where
  "py_split s = split_on is_space [] s"

text \<open>A plain file name: not empty, without whitespace and without a slash.\<close>

definition plain_name :: "string \<Rightarrow> bool" where
  "plain_name n = (n \<noteq> [] \<and> (\<forall>c\<in>set n. \<not> is_space c \<and> c \<noteq> CHR ''/''))"

subsection \<open>The remote host\<close>

text \<open>
  The host is a table from paths to nodes; the root is always a directory. Symbolic links
  are followed in the last component of a path only (\<^verbatim>\<open>test -e\<close> on \<^verbatim>\<open>current\<close> or on a
  link to a shared directory): hosts on which a proper prefix of one of the paths of the
  layout is itself a symbolic link are not covered.
\<close>

datatype node = Dir | File | Symlink path

type_synonym filesystem = "(path \<times> node) list"

definition lookup :: "filesystem \<Rightarrow> path \<Rightarrow> node option" where
  "lookup fs p = (if p = [] then Some Dir else map_of fs p)"

definition fs_remove :: "path \<Rightarrow> filesystem \<Rightarrow> filesystem" where
  "fs_remove p fs = filter (\<lambda>(q, n). q \<noteq> p) fs"

definition fs_put :: "path \<Rightarrow> node \<Rightarrow> filesystem \<Rightarrow> filesystem" where
  "fs_put p n fs = (p, n) # fs_remove p fs"

text \<open>Following a chain of links; the fuel only cuts cycles (the kernel's ELOOP).\<close>

fun resolve :: "nat \<Rightarrow> filesystem \<Rightarrow> path \<Rightarrow> (path \<times> node) option" where
  "resolve 0 fs p = None"
| "resolve (Suc k) fs p =
     (case lookup fs p of
        None \<Rightarrow> None
      | Some (Symlink t) \<Rightarrow> resolve k fs t
      | Some n \<Rightarrow> Some (p, n))"

definition stat :: "filesystem \<Rightarrow> path \<Rightarrow> (path \<times> node) option" where
  "stat fs p = resolve (Suc (length fs)) fs p"

text \<open>\<^verbatim>\<open>test -e path\<close>: the path resolves to something.\<close>

definition test_e :: "filesystem \<Rightarrow> path \<Rightarrow> bool" where
  "test_e fs p = (stat fs p \<noteq> None)"

text \<open>The names in a directory, and the expansion of the shell pattern \<^verbatim>\<open>*\<close> there, which
  never matches a name that starts with a dot.\<close>

definition dir_names :: "filesystem \<Rightarrow> path \<Rightarrow> string list" where
  "dir_names fs d = remdups (map last (filter (\<lambda>q. q \<noteq> [] \<and> butlast q = d) (map fst fs)))"

definition hidden :: "string \<Rightarrow> bool" where
  "hidden n = (case n of [] \<Rightarrow> False | c # _ \<Rightarrow> c = CHR ''.'')"

definition glob_star :: "filesystem \<Rightarrow> path \<Rightarrow> string list" where
  "glob_star fs d = filter (\<lambda>n. \<not> hidden n) (dir_names fs d)"

text \<open>The names \<^verbatim>\<open>find * -maxdepth 0 -type d\<close> prints in a directory: the matches of the
  pattern that are directories; a link to a directory is not one.\<close>

definition listed :: "filesystem \<Rightarrow> path \<Rightarrow> string list" where
  "listed fs d = filter (\<lambda>n. lookup fs (d @ [n]) = Some Dir) (glob_star fs d)"

definition unlines :: "string list \<Rightarrow> string" where
  "unlines ls = concat (map (\<lambda>l. l @ [CHR 0x0A]) ls)"

text \<open>
  The shell commands the module runs, with the paths it formats into them. Paths are
  taken without characters that the shell would interpret (the module quotes them in
  \<^verbatim>\<open>rm -rf\<close> only).
  \<^item> \<open>Mkdir_p p\<close>: \<^verbatim>\<open>mkdir -p p\<close>
  \<^item> \<open>Mkdir p\<close>: \<^verbatim>\<open>mkdir p\<close>
  \<^item> \<open>Ln_s t l\<close>: \<^verbatim>\<open>ln -s t l\<close>
  \<^item> \<open>Ln_nfs t l\<close>: \<^verbatim>\<open>ln -nfs t l\<close>
  \<^item> \<open>Rm_rf p\<close>: \<^verbatim>\<open>rm -rf 'p'\<close>
  \<^item> \<open>Find_dirs d\<close>: \<^verbatim>\<open>cd d && find * -maxdepth 0 -type d\<close>
\<close>

datatype command =
    Mkdir_p path
  | Mkdir path
  | Ln_s path path
  | Ln_nfs path path
  | Rm_rf path
  | Find_dirs path

text \<open>\<^verbatim>\<open>mkdir -p\<close> walks the path and creates what is missing; it fails at a component that
  exists and is not a directory.\<close>

fun mkdir_p_walk :: "filesystem \<Rightarrow> path \<Rightarrow> string list \<Rightarrow> filesystem option" where
  "mkdir_p_walk fs pre [] = Some fs"
| "mkdir_p_walk fs pre (c # cs) =
     (case lookup fs (pre @ [c]) of
        None \<Rightarrow> mkdir_p_walk (fs_put (pre @ [c]) Dir fs) (pre @ [c]) cs
      | Some Dir \<Rightarrow> mkdir_p_walk fs (pre @ [c]) cs
      | Some _ \<Rightarrow> None)"

text \<open>
  The result of a command: whether its exit status was zero, its standard output, and
  the file system it leaves.
  \<^item> \<^verbatim>\<open>mkdir p\<close> fails when \<open>p\<close> is there already or its parent is not a directory.
  \<^item> \<^verbatim>\<open>ln -s t l\<close> creates the link inside \<open>l\<close> when \<open>l\<close> is (a link to) a directory, and
    fails when the name to create is taken.
  \<^item> \<^verbatim>\<open>ln -nfs t l\<close> does not follow \<open>l\<close> when it is a link, replaces a file or link of
    that name, and cannot replace a directory.
  \<^item> \<^verbatim>\<open>rm -rf p\<close> removes \<open>p\<close> and all below it, succeeds when there is nothing, and
    refuses the root.
  \<^item> In \<^verbatim>\<open>cd d && find * -maxdepth 0 -type d\<close>, \<^verbatim>\<open>cd\<close> fails when \<open>d\<close> is no directory;
    a pattern that matches nothing is left as it is by the shell, so that \<^verbatim>\<open>find\<close>
    is given the name \<^verbatim>\<open>*\<close>, finds no such file and exits with status 1; otherwise
    \<^verbatim>\<open>find\<close> prints, one per line, the matched names that are directories.
\<close>

definition basename :: "path \<Rightarrow> string" where
  "basename p = (case rev p of [] \<Rightarrow> ''/'' | n # _ \<Rightarrow> n)"

fun exec :: "command \<Rightarrow> filesystem \<Rightarrow> bool \<times> string \<times> filesystem" where
  "exec (Mkdir_p p) fs =
     (case mkdir_p_walk fs [] p of None \<Rightarrow> (False, [], fs) | Some fs' \<Rightarrow> (True, [], fs'))"
| "exec (Mkdir p) fs =
     (if lookup fs p = None \<and> lookup fs (butlast p) = Some Dir
      then (True, [], fs_put p Dir fs) else (False, [], fs))"
| "exec (Ln_s t l) fs =
     (let dest = (case stat fs l of Some (d, Dir) \<Rightarrow> d @ [basename t] | _ \<Rightarrow> l)
      in if lookup fs dest = None \<and> lookup fs (butlast dest) = Some Dir
         then (True, [], fs_put dest (Symlink t) fs) else (False, [], fs))"
| "exec (Ln_nfs t l) fs =
     (let dest = (if lookup fs l = Some Dir then l @ [basename t] else l)
      in if lookup fs dest \<noteq> Some Dir \<and> lookup fs (butlast dest) = Some Dir
         then (True, [], fs_put dest (Symlink t) fs) else (False, [], fs))"
| "exec (Rm_rf p) fs =
     (if p = [] then (False, [], fs) else (True, [], filter (\<lambda>(q, n). \<not> prefix p q) fs))"
| "exec (Find_dirs d) fs =
     (if lookup fs d \<noteq> Some Dir then (False, [], fs)
      else if glob_star fs d = [] then (False, [], fs)
      else (True, unlines (listed fs d), fs))"

subsection \<open>The object, Fabric's environment and the world\<close>

text \<open>
  The compensating actions on the rollback stack are closures in the source; the only one
  this module registers is \<^verbatim>\<open>lambda: execute_pseudo_task(fn=self.revert_release)\<close>.
\<close>

datatype action = Revert_release

record release =
  base_path :: path
  shared :: "string list"
  current_rel :: "string option"
  previous_rel :: "string option"
  release_path :: path
  current_path :: path
  shared_path :: path
  rollback_stack :: "action list"

text \<open>Python exceptions: Fabric's \<^verbatim>\<open>abort\<close> raises \<^verbatim>\<open>SystemExit\<close>; reading an unset
  attribute of \<^verbatim>\<open>env\<close> raises \<^verbatim>\<open>AttributeError\<close>; the deploy steps in the body of the
  \<^verbatim>\<open>with\<close> statement may raise anything.\<close>

datatype exn = SystemExit string | AttributeError string | Exception string

record world =
  self :: release
  host :: filesystem
  env_base_dir :: "path option"
  clock_now :: pydatetime
  clock_today :: pydate
  warnings :: "string list"

type_synonym 'a result = "(exn + 'a) \<times> world"

text \<open>Sequencing: an exception skips the rest, and keeps the world as it was left.\<close>

definition and_then :: "'a result \<Rightarrow> ('a \<Rightarrow> world \<Rightarrow> 'b result) \<Rightarrow> 'b result" where
  "and_then r f = (case r of (Inl e, w) \<Rightarrow> (Inl e, w) | (Inr x, w) \<Rightarrow> f x w)"

text \<open>
  \<^verbatim>\<open>
  def __init__(self, base_path, shared=None):
      self.base_path = base_path
      if shared is not None:
          self.shared = shared
      self.current_rel = None
      self.previous_rel = None
      self.release_path = os.path.join(base_path, 'releases')
      self.current_path = os.path.join(base_path, 'current')
      self.shared_path = os.path.join(base_path, 'shared')
      super(Release, self).__init__()
  \<close>
  The class attribute \<^verbatim>\<open>shared = ['log']\<close> is the default.
\<close>

definition init :: "string \<Rightarrow> string list option \<Rightarrow> release" where
  "init bp sh =
     \<lparr> base_path = components bp,
       shared = (case sh of None \<Rightarrow> [''log''] | Some names \<Rightarrow> names),
       current_rel = None,
       previous_rel = None,
       release_path = os_path_join (components bp) ''releases'',
       current_path = os_path_join (components bp) ''current'',
       shared_path = os_path_join (components bp) ''shared'',
       rollback_stack = [] \<rparr>"

subsection \<open>Fabric\<close>

text \<open>
  \<^verbatim>\<open>warn\<close> prints a warning. \<^verbatim>\<open>exists(path)\<close> runs \<^verbatim>\<open>test -e path\<close> and never raises.
  \<^verbatim>\<open>run(command)\<close> returns the standard output of the command; on a non-zero exit status
  it calls \<^verbatim>\<open>abort\<close>, or only \<^verbatim>\<open>warn\<close> inside \<^verbatim>\<open>with settings(warn_only=True)\<close>. Outside
  such a block \<^verbatim>\<open>env.warn_only\<close> has Fabric's default, false.
\<close>

definition warn :: "string \<Rightarrow> world \<Rightarrow> world" where
  "warn msg w = w\<lparr>warnings := warnings w @ [msg]\<rparr>"

definition exists :: "path \<Rightarrow> world \<Rightarrow> bool" where
  "exists p w = test_e (host w) p"

definition run :: "bool \<Rightarrow> command \<Rightarrow> world \<Rightarrow> string result" where
  "run warn_only cmd w =
     (case exec cmd (host w) of
        (ok, out, fs) \<Rightarrow>
          if ok then (Inr out, w\<lparr>host := fs\<rparr>)
          else if warn_only then (Inr out, warn ''run() received nonzero return code'' (w\<lparr>host := fs\<rparr>))
          else (Inl (SystemExit ''run() received nonzero return code''), w\<lparr>host := fs\<rparr>))"

subsection \<open>Transaction and execute_pseudo_task\<close>

text \<open>
  Modelled from the spec: \<^verbatim>\<open>Transaction\<close> (transaction.py) is the base class and is not
  among the sources. The spec (3, 4.1): \<^verbatim>\<open>on_rollback(action)\<close> appends the action to the
  end of the stack; \<^verbatim>\<open>enter\<close> does nothing; \<^verbatim>\<open>exit(failed)\<close> runs the stack from the
  last registered to the first when \<open>failed\<close>, an action that raises not stopping the
  ones after it, and clears the stack in either case; the error of the body is reported
  and not raised again.
\<close>

definition on_rollback :: "action \<Rightarrow> world \<Rightarrow> world" where
  "on_rollback a w = w\<lparr>self := (self w)\<lparr>rollback_stack := rollback_stack (self w) @ [a]\<rparr>\<rparr>"

definition transaction_enter :: "world \<Rightarrow> world" where
  "transaction_enter w = w"

text \<open>
  Modelled from the spec: \<^verbatim>\<open>execute_pseudo_task\<close> (util.py) is not among the sources; the
  spec describes each step it is given as performed directly, so it is the call of \<open>fn\<close>.
\<close>

definition execute_pseudo_task :: "(world \<Rightarrow> 'a result) \<Rightarrow> world \<Rightarrow> 'a result" where
  "execute_pseudo_task fn w = fn w"

subsection \<open>The methods of Release\<close>

text \<open>
  \<^verbatim>\<open>
  def current_release(self):
      if self.current_rel is None:
          self.current_rel = self._gen_rel()
      return self.current_rel

  def current_release_path(self):
      return os.path.join(self.release_path, self.current_release())
  \<close>
\<close>

definition current_release :: "world \<Rightarrow> string \<times> world" where
  "current_release w =
     (case current_rel (self w) of
        None \<Rightarrow>
          (let r = gen_rel (clock_now w) (clock_today w)
           in (r, w\<lparr>self := (self w)\<lparr>current_rel := Some r\<rparr>\<rparr>))
      | Some r \<Rightarrow> (r, w))"

definition current_release_path :: "world \<Rightarrow> path \<times> world" where
  "current_release_path w =
     (case current_release w of (r, w1) \<Rightarrow> (os_path_join (release_path (self w1)) r, w1))"

text \<open>
  \<^verbatim>\<open>
  def revert_release(self):
      run('rm -rf \'{0}\''.format(env.base_dir))
  \<close>
\<close>

definition revert_release :: "world \<Rightarrow> unit result" where
  "revert_release w =
     (case env_base_dir w of
        None \<Rightarrow> (Inl (AttributeError ''base_dir''), w)
      | Some p \<Rightarrow> and_then (run False (Rm_rf p) w) (\<lambda>_ w1. (Inr (), w1)))"

text \<open>Running a compensating action, and the drain of the stack (see Transaction above).\<close>

fun run_action :: "action \<Rightarrow> world \<Rightarrow> unit result" where
  "run_action Revert_release w = execute_pseudo_task revert_release w"

fun drain :: "action list \<Rightarrow> world \<Rightarrow> world" where
  "drain [] w = w"
| "drain (a # as) w = drain as (snd (run_action a w))"

definition transaction_exit :: "bool \<Rightarrow> world \<Rightarrow> bool result" where
  "transaction_exit failed w =
     (let w1 = (if failed then drain (rev (rollback_stack (self w))) w else w)
      in (Inr failed, w1\<lparr>self := (self w1)\<lparr>rollback_stack := []\<rparr>\<rparr>))"

text \<open>
  \<^verbatim>\<open>
  def link_shared(self, name, create=False):
      rel = os.path.join(self.current_release_path(), name)
      shared = os.path.join(self.shared_path, name)
      if not exists(shared):
          if create:
              run('mkdir {0}'.format(shared))
          else:
              error('Shared path {name} does not exists'.format(name=name))
      if not exists(rel):
          run('ln -s {shared} {rel}'.format(shared=shared, rel=rel))
  \<close>
  Fabric's \<^verbatim>\<open>error(message)\<close> without a \<^verbatim>\<open>func\<close> calls \<^verbatim>\<open>abort\<close>.
\<close>

definition link_shared :: "string \<Rightarrow> bool \<Rightarrow> world \<Rightarrow> unit result" where
  "link_shared name create w =
     (case current_release_path w of
        (rp, w1) \<Rightarrow>
          (let rel = os_path_join rp name;
               shared_dir = os_path_join (shared_path (self w1)) name
           in and_then
                (if \<not> exists shared_dir w1
                 then (if create then run False (Mkdir shared_dir) w1
                       else (Inl (SystemExit (''Shared path '' @ name @ '' does not exists'')), w1))
                 else (Inr [], w1))
                (\<lambda>_ w2.
                   if \<not> exists rel w2
                   then and_then (run False (Ln_s shared_dir rel) w2) (\<lambda>_ w3. (Inr (), w3))
                   else (Inr (), w2))))"

text \<open>
  \<^verbatim>\<open>
  def create_release(self):
      env.base_dir = self.current_release_path()
      run('mkdir -p {0}'.format(env.base_dir))
      self.on_rollback(lambda: execute_pseudo_task(fn=self.revert_release))
      for shared_path in self.shared:
          self.link_shared(shared_path, create=True)
  \<close>
\<close>

fun link_each :: "string list \<Rightarrow> world \<Rightarrow> unit result" where
  "link_each [] w = (Inr (), w)"
| "link_each (name # names) w = and_then (link_shared name True w) (\<lambda>_ w1. link_each names w1)"

definition create_release :: "world \<Rightarrow> unit result" where
  "create_release w =
     (case current_release_path w of
        (p, w1) \<Rightarrow>
          (let w2 = w1\<lparr>env_base_dir := Some p\<rparr>
           in and_then (run False (Mkdir_p p) w2)
                (\<lambda>_ w3. let w4 = on_rollback Revert_release w3
                         in link_each (shared (self w4)) w4)))"

text \<open>
  \<^verbatim>\<open>
  def setup(self):
      if not exists(self.base_path, verbose=True):
          error('Missing base path.')
      with settings(warn_only=True):
          for path in [self.release_path, self.shared_path]:
              if not exists(path):
                  run('mkdir -p {0}'.format(path))
      self.create_release()
  \<close>
\<close>

definition ensure_dir :: "path \<Rightarrow> world \<Rightarrow> world" where
  "ensure_dir p w = (if \<not> exists p w then snd (run True (Mkdir_p p) w) else w)"

definition release_setup :: "world \<Rightarrow> unit result" where
  "release_setup w =
     (if \<not> exists (base_path (self w)) w then (Inl (SystemExit ''Missing base path.''), w)
      else create_release (ensure_dir (shared_path (self w)) (ensure_dir (release_path (self w)) w)))"

text \<open>
  \<^verbatim>\<open>
  def releases(self):
      with hide('stdout'):
          rels = sorted(run('cd {0} && find * -maxdepth 0 -type d'.format(
              self.release_path)).split())
      return rels
  \<close>
  \<^verbatim>\<open>sorted\<close> on Python 2 byte strings is the lexicographic order of the bytes.
\<close>

definition releases :: "world \<Rightarrow> string list result" where
  "releases w =
     and_then (run False (Find_dirs (release_path (self w))) w)
       (\<lambda>out w1. (Inr (sort (py_split out)), w1))"

text \<open>
  \<^verbatim>\<open>
  def cleanup(self):
      rels = self.releases()
      if len(rels) > 5:
          rels.reverse()
          del rels[:5]
          map(lambda d: run('rm -rf \'{0}\''.format(d)),
              [os.path.join(self.release_path, d) for d in rels])
  \<close>
  In Python 2 \<^verbatim>\<open>map\<close> builds its list at once, so every \<^verbatim>\<open>run\<close> is performed.
\<close>

fun rm_each :: "path list \<Rightarrow> world \<Rightarrow> unit result" where
  "rm_each [] w = (Inr (), w)"
| "rm_each (d # ds) w = and_then (run False (Rm_rf d) w) (\<lambda>_ w1. rm_each ds w1)"

definition cleanup :: "world \<Rightarrow> unit result" where
  "cleanup w =
     and_then (releases w)
       (\<lambda>rels w1.
          if length rels > 5
          then rm_each (map (\<lambda>d. os_path_join (release_path (self w1)) d) (drop 5 (rev rels))) w1
          else (Inr (), w1))"

text \<open>
  \<^verbatim>\<open>
  def symlink(self):
      if exists(self.current_path):
          run('rm -rf {0}'.format(self.current_path))
      run('ln -nfs {0} {1}'.format(self.current_release_path(), self.current_path))
  \<close>
\<close>

definition symlink :: "world \<Rightarrow> unit result" where
  "symlink w =
     and_then
       (if exists (current_path (self w)) w then run False (Rm_rf (current_path (self w))) w
        else (Inr [], w))
       (\<lambda>_ w1. case current_release_path w1 of
                  (p, w2) \<Rightarrow>
                    and_then (run False (Ln_nfs p (current_path (self w2))) w2)
                      (\<lambda>_ w3. (Inr (), w3)))"

text \<open>
  \<^verbatim>\<open>
  def rollback_release(self):
      rels = self.releases()
      if len(rels) < 2:
          warn('No previous release found')
          return False
      old_rel = rels[-1]
      self.current_rel = rels[-2]
      self.symlink()
      run('rm -rf \'{0}\''.format(os.path.join(self.release_path, old_rel)))
  \<close>
  The method returns \<^verbatim>\<open>False\<close> when there is nothing to roll back to and \<^verbatim>\<open>None\<close> at its
  end: \<open>Some False\<close> and \<open>None\<close> here.
\<close>

definition rollback_release :: "world \<Rightarrow> bool option result" where
  "rollback_release w =
     and_then (releases w)
       (\<lambda>rels w1.
          if length rels < 2 then (Inr (Some False), warn ''No previous release found'' w1)
          else
            (let old_rel = last rels;
                 w2 = w1\<lparr>self := (self w1)\<lparr>current_rel := Some (rels ! (length rels - 2))\<rparr>\<rparr>
             in and_then (symlink w2)
                  (\<lambda>_ w3. and_then
                     (run False (Rm_rf (os_path_join (release_path (self w3)) old_rel)) w3)
                     (\<lambda>_ w4. (Inr None, w4)))))"

text \<open>
  \<^verbatim>\<open>
  def __enter__(self):
      execute_pseudo_task(fn=self.setup)
      super(Release, self).__enter__()
      return self

  def __exit__(self, type, value, tb):
      if tb is not None:
          error('Release failed.', func=warn, exception=value)
      else:
          puts(green('Release successful.'))
          execute_pseudo_task(fn=self.symlink)
          execute_pseudo_task(fn=self.cleanup)
      super(Release, self).__exit__(type, value, tb)
  \<close>
  The argument of \<open>release_exit\<close> is the exception the body raised, if any. The
  method calls \<^verbatim>\<open>Transaction.__exit__\<close> and does not return its result: it returns
  \<^verbatim>\<open>None\<close>.
\<close>

definition release_enter :: "world \<Rightarrow> unit result" where
  "release_enter w =
     and_then (execute_pseudo_task release_setup w) (\<lambda>_ w1. (Inr (), transaction_enter w1))"

definition release_exit :: "exn option \<Rightarrow> world \<Rightarrow> unit result" where
  "release_exit exc w =
     (case exc of
        Some e \<Rightarrow>
          and_then (transaction_exit True (warn ''Release failed.'' w)) (\<lambda>_ w1. (Inr (), w1))
      | None \<Rightarrow>
          and_then (execute_pseudo_task symlink w)
            (\<lambda>_ w1. and_then (execute_pseudo_task cleanup w1)
               (\<lambda>_ w2. and_then (transaction_exit False w2) (\<lambda>_ w3. (Inr (), w3)))))"

text \<open>
  The \<^verbatim>\<open>with\<close> statement of Python: \<^verbatim>\<open>with release(...) as r: body\<close>. When
  \<^verbatim>\<open>__enter__\<close> raises, the exception propagates and \<^verbatim>\<open>__exit__\<close> is not called. Otherwise
  \<^verbatim>\<open>__exit__\<close> is called with the exception of the body, if there is one; that exception
  is raised again after \<^verbatim>\<open>__exit__\<close>, which returns \<^verbatim>\<open>None\<close> here, unless
  \<^verbatim>\<open>__exit__\<close> raises itself.
\<close>

definition with_release :: "(world \<Rightarrow> unit result) \<Rightarrow> world \<Rightarrow> unit result" where
  "with_release body w =
     (case release_enter w of
        (Inl e, w1) \<Rightarrow> (Inl e, w1)
      | (Inr _, w1) \<Rightarrow>
          (case body w1 of
             (Inl e, w2) \<Rightarrow> and_then (release_exit (Some e) w2) (\<lambda>_ w3. (Inl e, w3))
           | (Inr _, w2) \<Rightarrow> and_then (release_exit None w2) (\<lambda>_ w3. (Inr (), w3))))"

section \<open>Example hosts\<close>

text \<open>
  The application lives in \<^verbatim>\<open>/srv/app\<close>. On 2013-01-05 it was deployed at 01:00, 02:00,
  02:30, 02:40 and 02:45; each release directory has the name \<open>gen_rel\<close> gave it, and
  \<^verbatim>\<open>current\<close> points at the release of 02:45. It is now 03:00.
\<close>

definition day0 :: pydate where
  "day0 = \<lparr>year = 2013, month = 1, day = 5\<rparr>"

definition at_time :: "nat \<Rightarrow> nat \<Rightarrow> nat \<Rightarrow> pydatetime" where
  "at_time h m s = \<lparr>year = 2013, month = 1, day = 5, hour = h, minute = m, second = s\<rparr>"

definition app :: path where
  "app = [''srv'', ''app'']"

definition release_dir :: "pydatetime \<Rightarrow> path \<times> node" where
  "release_dir t = (app @ [''releases'', gen_rel t day0], Dir)"

definition night_times :: "pydatetime list" where
  "night_times = [at_time 1 0 0, at_time 2 0 0, at_time 2 30 0, at_time 2 40 0, at_time 2 45 0]"

definition night_host :: filesystem where
  "night_host =
     [([''srv''], Dir), (app, Dir), (app @ [''releases''], Dir), (app @ [''shared''], Dir),
      (app @ [''shared'', ''log''], Dir)]
     @ map release_dir night_times
     @ [(app @ [''current''], Symlink (app @ [''releases'', gen_rel (at_time 2 45 0) day0]))]"

definition night_world :: world where
  "night_world =
     \<lparr> self = init ''/srv/app'' None, host = night_host, env_base_dir = None,
       clock_now = at_time 3 0 0, clock_today = day0, warnings = [] \<rparr>"

text \<open>The same host once the release of 03:00 has been created beside the five others.\<close>

definition six_world :: world where
  "six_world = night_world \<lparr> host := release_dir (at_time 3 0 0) # night_host \<rparr>"

text \<open>A host that has the base path and nothing else, for a first deploy; a manager whose
  shared path is nested, \<^verbatim>\<open>release('/srv/app', shared=['uploads/img'])\<close>; and a host
  whose \<^verbatim>\<open>releases\<close> directory is there and empty.\<close>

definition fresh_host :: filesystem where
  "fresh_host = [([''srv''], Dir), (app, Dir)]"

definition nested_world :: world where
  "nested_world =
     \<lparr> self = init ''/srv/app'' (Some [''uploads/img'']), host = fresh_host,
       env_base_dir = None, clock_now = at_time 3 0 0, clock_today = day0, warnings = [] \<rparr>"

definition empty_world :: world where
  "empty_world =
     \<lparr> self = init ''/srv/app'' None, host = fresh_host @ [(app @ [''releases''], Dir)],
       env_base_dir = None, clock_now = at_time 3 0 0, clock_today = day0, warnings = [] \<rparr>"

text \<open>
  A host with three releases made on one day, at 02:40, 02:45 and 03:00, \<^verbatim>\<open>current\<close> at
  the newest one.
\<close>

definition same_day_host :: filesystem where
  "same_day_host =
     [([''srv''], Dir), (app, Dir), (app @ [''releases''], Dir), (app @ [''shared''], Dir),
      (app @ [''shared'', ''log''], Dir),
      release_dir (at_time 2 40 0), release_dir (at_time 2 45 0), release_dir (at_time 3 0 0),
      (app @ [''current''], Symlink (app @ [''releases'', gen_rel (at_time 3 0 0) day0]))]"

definition same_day_world :: world where
  "same_day_world =
     \<lparr> self = init ''/srv/app'' None, host = same_day_host, env_base_dir = None,
       clock_now = at_time 3 30 0, clock_today = day0, warnings = [] \<rparr>"

text \<open>A host prepared for a deploy, and the world right after \<open>create_release\<close> there.\<close>

definition ready_world :: world where
  "ready_world =
     \<lparr> self = init ''/srv/app'' None,
       host = fresh_host @ [(app @ [''releases''], Dir), (app @ [''shared''], Dir)],
       env_base_dir = None, clock_now = at_time 3 0 0, clock_today = day0, warnings = [] \<rparr>"

definition created_world :: world where
  "created_world = snd (create_release ready_world)"

section \<open>Evaluation\<close>

lemmas model_defs =
  with_release_def release_enter_def release_exit_def execute_pseudo_task_def
  release_setup_def exists_def test_e_def stat_def lookup_def ensure_dir_def create_release_def
  current_release_path_def current_release_def on_rollback_def transaction_enter_def
  transaction_exit_def link_shared_def run_def and_then_def warn_def fs_put_def fs_remove_def
  os_path_join_def components_def symlink_def cleanup_def releases_def py_split_def is_space_def
  unlines_def glob_star_def listed_def hidden_def dir_names_def basename_def revert_release_def
  rollback_release_def Let_def init_def gen_rel_def isoformat_def zfill_def digit_char_def
  str_nat.simps

lemmas example_defs =
  day0_def at_time_def app_def release_dir_def night_times_def night_host_def night_world_def
  six_world_def fresh_host_def nested_world_def empty_world_def same_day_host_def same_day_world_def
  ready_world_def

section \<open>The order of release names\<close>

text \<open>
  Where the names \<open>gen_rel\<close> produces do sort by time: the date part has a fixed
  width, so names of different dates compare as the dates do; names of one date compare
  as their seconds do when the two numerals have the same number of digits.
\<close>

lemma digit_char_code: "n < 10 \<Longrightarrow> of_char (digit_char n) = 48 + n"
proof -
  assume n: "n < 10"
  have codes: "map of_char ''0123456789'' = [48..<58 :: nat]"
    by (simp add: upt_rec)
  have "of_char (digit_char n) = map of_char ''0123456789'' ! n"
    using n unfolding digit_char_def by (subst nth_map) simp_all
  also have "\<dots> = 48 + n" unfolding codes using n by (subst nth_upt) simp_all
  finally show ?thesis .
qed

lemma digit_char_less: "a < b \<Longrightarrow> b < 10 \<Longrightarrow> digit_char a < digit_char b"
  using digit_char_code [of a] digit_char_code [of b] by (simp add: less_char_def)

lemma digit_char_zero: "digit_char 0 = CHR ''0''"
  by (simp add: digit_char_def)

lemma length_digits [simp]: "length (digits w n) = w"
  by (induction w arbitrary: n) auto

lemma digits_less: "b < 10 ^ w \<Longrightarrow> a < b \<Longrightarrow> digits w a < digits w b"
proof (induction w arbitrary: a b)
  case 0
  then show ?case by simp
next
  case (Suc w)
  have b10: "b div 10 < 10 ^ w" using Suc.prems(1) by (simp add: less_mult_imp_div_less mult.commute)
  show ?case
  proof (cases "a div 10 < b div 10")
    case True
    then have "digits w (a div 10) < digits w (b div 10)" using Suc.IH [OF b10] by simp
    then have "(digits w (a div 10), digits w (b div 10)) \<in> lexord {(u, v). u < v}"
      by (simp add: list_less_def)
    then have "(digits w (a div 10) @ [digit_char (a mod 10)], digits w (b div 10) @ [digit_char (b mod 10)])
                 \<in> lexord {(u, v). u < v}"
      by (rule lexord_sufI) simp
    then show ?thesis by (simp add: list_less_def)
  next
    case False
    then have eq: "a div 10 = b div 10" using Suc.prems(2) by (simp add: div_le_mono order_antisym)
    then have "a mod 10 < b mod 10" using Suc.prems(2)
      by (metis div_mult_mod_eq nat_add_left_cancel_less)
    then have "digit_char (a mod 10) < digit_char (b mod 10)" by (simp add: digit_char_less)
    then show ?thesis using eq by (simp add: list_less_def lexord_append_left_rightI)
  qed
qed

lemma str_nat_digits: "0 < w \<Longrightarrow> n < 10 ^ w \<Longrightarrow> zfill w (str_nat n) = digits w n"
proof (induction w arbitrary: n)
  case 0
  then show ?case by simp
next
  case (Suc w)
  show ?case
  proof (cases "n < 10")
    case True
    have "digits k 0 = replicate k (CHR ''0'')" for k
      by (induction k) (simp_all add: digit_char_zero replicate_append_same)
    then show ?thesis using True by (simp add: str_nat.simps [of n] zfill_def)
  next
    case False
    then have w: "0 < w" using Suc.prems(2) by (cases w) auto
    have "n div 10 < 10 ^ w" using Suc.prems(2) by (simp add: less_mult_imp_div_less mult.commute)
    from Suc.IH [OF w this] have ih: "zfill w (str_nat (n div 10)) = digits w (n div 10)" .
    then have "length (zfill w (str_nat (n div 10))) = w" by simp
    then have len: "length (str_nat (n div 10)) \<le> w" by (simp add: zfill_def)
    have "zfill (Suc w) (str_nat n) = zfill w (str_nat (n div 10)) @ [digit_char (n mod 10)]"
      using False len by (simp add: str_nat.simps [of n] zfill_def Suc_diff_le)
    then show ?thesis using ih by simp
  qed
qed

lemma append_less_left: "(a :: string) < b \<Longrightarrow> length a = length b \<Longrightarrow> a @ x < b @ y"
  unfolding list_less_def by (rule lexord_sufI) simp_all

lemma append_less_same: "(x :: string) < y \<Longrightarrow> a @ x < a @ y"
  unfolding list_less_def by (rule lexord_append_leftI)

lemma str_nat_bound: "n < 10 ^ length (str_nat n)"
proof (induction n rule: str_nat.induct)
  case (1 n)
  show ?case
  proof (cases "n < 10")
    case True
    then show ?thesis by (simp add: str_nat.simps [of n])
  next
    case False
    then have "n div 10 < 10 ^ length (str_nat (n div 10))" using "1" by simp
    then have "n < 10 * 10 ^ length (str_nat (n div 10))" by (simp add: div_less_iff_less_mult mult.commute)
    then show ?thesis using False by (simp add: str_nat.simps [of n])
  qed
qed

lemma str_nat_nonempty: "str_nat n \<noteq> []"
  by (simp add: str_nat.simps [of n])

lemma str_nat_less:
  assumes "a < b" and "length (str_nat a) = length (str_nat b)"
  shows "str_nat a < str_nat b"
proof -
  let ?w = "length (str_nat b)"
  have w: "0 < ?w" using str_nat_nonempty [of b] by simp
  have b: "b < 10 ^ ?w" by (rule str_nat_bound)
  then have a: "a < 10 ^ ?w" using assms(1) by simp
  have "str_nat a = digits ?w a" using str_nat_digits [OF w a] assms(2) by (simp add: zfill_def)
  moreover have "str_nat b = digits ?w b" using str_nat_digits [OF w b] by (simp add: zfill_def)
  ultimately show ?thesis using digits_less [OF b assms(1)] by simp
qed

lemma isoformat_digits:
  "valid_date d \<Longrightarrow>
   isoformat d = digits 4 (year d) @ ''-'' @ digits 2 (month d) @ ''-'' @ digits 2 (day d)"
  by (simp add: isoformat_def valid_date_def str_nat_digits del: digits.simps)

lemma isoformat_less:
  assumes "valid_date d1" and "valid_date d2" and "date_before d1 d2"
  shows "isoformat d1 < isoformat d2"
proof -
  have y: "year d2 < 10 ^ 4" and m: "month d2 < 10 ^ 2" and d: "day d2 < 10 ^ 2"
    using assms(2) by (simp_all add: valid_date_def)
  consider "year d1 < year d2"
    | "year d1 = year d2" "month d1 < month d2"
    | "year d1 = year d2" "month d1 = month d2" "day d1 < day d2"
    using assms(3) by (auto simp: date_before_def)
  then show ?thesis
  proof cases
    case 1
    then have "digits 4 (year d1) < digits 4 (year d2)" by (rule digits_less [OF y])
    then show ?thesis
      unfolding isoformat_digits [OF assms(1)] isoformat_digits [OF assms(2)]
      by (rule append_less_left) simp
  next
    case 2
    then have "digits 2 (month d1) < digits 2 (month d2)" using digits_less [OF m] by simp
    then have "digits 2 (month d1) @ ''-'' @ digits 2 (day d1) < digits 2 (month d2) @ ''-'' @ digits 2 (day d2)"
      by (rule append_less_left) simp
    then have "''-'' @ digits 2 (month d1) @ ''-'' @ digits 2 (day d1)
               < ''-'' @ digits 2 (month d2) @ ''-'' @ digits 2 (day d2)"
      by (rule append_less_same)
    then show ?thesis
      unfolding isoformat_digits [OF assms(1)] isoformat_digits [OF assms(2)] 2(1)
      by (rule append_less_same)
  next
    case 3
    then have "digits 2 (day d1) < digits 2 (day d2)" using digits_less [OF d] by simp
    then have "''-'' @ digits 2 (month d2) @ ''-'' @ digits 2 (day d1)
               < ''-'' @ digits 2 (month d2) @ ''-'' @ digits 2 (day d2)"
      using append_less_same [of "digits 2 (day d1)" "digits 2 (day d2)" "''-'' @ digits 2 (month d2) @ ''-''"]
      by simp
    then show ?thesis
      unfolding isoformat_digits [OF assms(1)] isoformat_digits [OF assms(2)] 3(1) 3(2)
      by (rule append_less_same)
  qed
qed

lemma length_isoformat: "valid_date d \<Longrightarrow> length (isoformat d) = 10"
  by (simp add: isoformat_digits)

lemma gen_rel_eq: "gen_rel t d = isoformat d @ ''.'' @ str_nat (seconds_of t)"
  by (simp add: gen_rel_def seconds_of_def)

lemma gen_rel_different_dates:
  assumes "valid_date d1" and "valid_date d2" and "date_before d1 d2"
  shows "gen_rel t1 d1 < gen_rel t2 d2"
  unfolding gen_rel_eq
  by (rule append_less_left [OF isoformat_less [OF assms]]) (simp add: length_isoformat assms)

lemma gen_rel_same_date_same_width:
  assumes "seconds_of t1 < seconds_of t2"
      and "length (str_nat (seconds_of t1)) = length (str_nat (seconds_of t2))"
  shows "gen_rel t1 d < gen_rel t2 d"
proof -
  have "str_nat (seconds_of t1) < str_nat (seconds_of t2)" using assms by (rule str_nat_less)
  then have "''.'' @ str_nat (seconds_of t1) < ''.'' @ str_nat (seconds_of t2)"
    by (rule append_less_same)
  then show ?thesis unfolding gen_rel_eq by (rule append_less_same)
qed

section \<open>The file system, paths and sequencing\<close>

lemma lookup_rm_rf:
  "p \<noteq> [] \<Longrightarrow> lookup (filter (\<lambda>(q, n). \<not> prefix p q) fs) d = (if prefix p d then None else lookup fs d)"
  by (induction fs) (auto simp: lookup_def)

lemma lookup_fs_put:
  "p \<noteq> [] \<Longrightarrow> lookup (fs_put p n fs) d = (if d = p then Some n else lookup fs d)"
  by (induction fs) (auto simp: lookup_def fs_put_def fs_remove_def)

lemma split_on_no_sep:
  "\<forall>c\<in>set s. \<not> sep c \<Longrightarrow> split_on sep acc s = (if acc @ s = [] then [] else [acc @ s])"
  by (induction s arbitrary: acc) auto

lemma os_path_join_plain:
  "n \<noteq> [] \<Longrightarrow> CHR ''/'' \<notin> set n \<Longrightarrow> os_path_join a n = a @ [n]"
proof -
  assume n: "n \<noteq> []" and s: "CHR ''/'' \<notin> set n"
  have "\<forall>c\<in>set n. \<not> (c = CHR ''/'')" using s by auto
  then have "components n = [n]"
    using n by (simp add: components_def split_on_no_sep)
  moreover have "hd n \<noteq> CHR ''/''" using n s by (cases n) auto
  ultimately show ?thesis using n by (cases n) (auto simp: os_path_join_def)
qed

lemma not_test_e_not_dir: "\<not> test_e fs p \<Longrightarrow> lookup fs p \<noteq> Some Dir"
  by (auto simp: test_e_def stat_def)

lemma run_frame:
  "self (snd (run b c w)) = self w"
  "env_base_dir (snd (run b c w)) = env_base_dir w"
  "clock_now (snd (run b c w)) = clock_now w"
  "clock_today (snd (run b c w)) = clock_today w"
  by (auto simp: run_def warn_def split: prod.splits)

lemma run_self: "run b c w = (r, w') \<Longrightarrow> self w' = self w"
  using run_frame(1) [of b c w] by simp

lemma symlink_ok:
  assumes rel: "current_rel (self w) = Some r"
      and cur: "current_path (self w) = base @ [''current'']"
      and base: "lookup (host w) base = Some Dir"
  shows "\<exists>fs'. symlink w = (Inr (), w\<lparr>host := fs'\<rparr>)
           \<and> lookup fs' (base @ [''current'']) = Some (Symlink (os_path_join (release_path (self w)) r))
           \<and> (\<forall>d. \<not> prefix (base @ [''current'']) d \<longrightarrow> lookup fs' d = lookup (host w) d)"
proof (cases "exists (base @ [''current'']) w")
  case True
  let ?fs1 = "filter (\<lambda>(q, n). \<not> prefix (base @ [''current'']) q) (host w)"
  let ?fs2 = "fs_put (base @ [''current'']) (Symlink (os_path_join (release_path (self w)) r)) ?fs1"
  have l1: "lookup ?fs1 (base @ [''current'']) = None" by (simp add: lookup_rm_rf)
  have l2: "lookup ?fs1 base = Some Dir" using base by (simp add: lookup_rm_rf)
  have "symlink w = (Inr (), w\<lparr>host := ?fs2\<rparr>)"
    using True rel cur l1 l2
    by (simp add: symlink_def and_then_def run_def current_release_path_def current_release_def Let_def)
  moreover have "lookup ?fs2 (base @ [''current'']) = Some (Symlink (os_path_join (release_path (self w)) r))"
    by (simp add: lookup_fs_put)
  moreover have "\<forall>d. \<not> prefix (base @ [''current'']) d \<longrightarrow> lookup ?fs2 d = lookup (host w) d"
    by (auto simp: lookup_fs_put lookup_rm_rf)
  ultimately show ?thesis by blast
next
  case False
  let ?fs2 = "fs_put (base @ [''current'']) (Symlink (os_path_join (release_path (self w)) r)) (host w)"
  have l1: "lookup (host w) (base @ [''current'']) \<noteq> Some Dir"
    using False by (simp add: exists_def not_test_e_not_dir)
  have "symlink w = (Inr (), w\<lparr>host := ?fs2\<rparr>)"
    using False rel cur l1 base
    by (simp add: symlink_def and_then_def run_def current_release_path_def current_release_def Let_def)
  moreover have "lookup ?fs2 (base @ [''current'']) = Some (Symlink (os_path_join (release_path (self w)) r))"
    by (simp add: lookup_fs_put)
  moreover have "\<forall>d. \<not> prefix (base @ [''current'']) d \<longrightarrow> lookup ?fs2 d = lookup (host w) d"
    by (auto simp: lookup_fs_put)
  ultimately show ?thesis by blast
qed

lemma and_then_Inr:
  "and_then r f = (Inr y, w') \<Longrightarrow> \<exists>x w1. r = (Inr x, w1) \<and> f x w1 = (Inr y, w')"
  by (cases r) (auto simp: and_then_def split: sum.splits)

lemma and_then_Inr_eq: "and_then (Inr x, w) f = f x w"
  by (simp add: and_then_def)

lemma split_on_nonempty: "[] \<notin> set (split_on sep acc s)"
  by (induction s arbitrary: acc) auto

lemma releases_frame: "snd (releases w) = w"
  by (auto simp: releases_def run_def and_then_def split: prod.splits if_splits)

lemma releases_nonempty_names: "fst (releases w) = Inr rels \<Longrightarrow> [] \<notin> set rels"
  by (auto simp: releases_def run_def and_then_def py_split_def split_on_nonempty
           split: prod.splits if_splits)

lemma init_layout:
  "base_path (init bp sh) = components bp"
  "release_path (init bp sh) = components bp @ [''releases'']"
  "current_path (init bp sh) = components bp @ [''current'']"
  "shared_path (init bp sh) = components bp @ [''shared'']"
  "current_rel (init bp sh) = None"
  "rollback_stack (init bp sh) = []"
  by (simp_all add: init_def os_path_join_def components_def)

lemma and_then_preserves:
  assumes "P (snd r)" and "\<And>x w. P w \<Longrightarrow> P (snd (f x w))"
  shows "P (snd (and_then r f))"
  using assms by (cases r) (auto simp: and_then_def split: sum.splits)

lemma symlink_self:
  assumes "current_rel (self w) = Some r"
  shows "self (snd (symlink w)) = self w"
  unfolding symlink_def
proof (rule and_then_preserves [where P = "\<lambda>w'. self w' = self w"])
  show "self (snd (if exists (current_path (self w)) w
                   then run False (Rm_rf (current_path (self w))) w else (Inr [], w))) = self w"
    by (simp add: run_frame)
next
  fix x :: string and w1 :: world
  assume w1: "self w1 = self w"
  then have "current_release_path w1 = (os_path_join (release_path (self w)) r, w1)"
    using assms by (simp add: current_release_path_def current_release_def)
  moreover have "self (snd (and_then (run False c w1) (\<lambda>_ w3. (Inr (), w3)))) = self w" for c
    by (rule and_then_preserves [where P = "\<lambda>w'. self w' = self w"]) (simp_all add: run_frame w1)
  ultimately show "self (snd (case current_release_path w1 of
                      (p, w2) \<Rightarrow> and_then (run False (Ln_nfs p (current_path (self w2))) w2)
                                   (\<lambda>_ w3. (Inr (), w3)))) = self w"
    by simp
qed

lemma rollback_release_ok:
  assumes rels: "fst (releases w) = Inr rels" and len: "2 \<le> length rels"
      and rp: "release_path (self w) = base @ [''releases'']"
      and cur: "current_path (self w) = base @ [''current'']"
      and base: "lookup (host w) base = Some Dir"
      and plain: "CHR ''/'' \<notin> set (last rels)"
  shows "\<exists>w'. rollback_release w = (Inr None, w')
           \<and> self w' = (self w)\<lparr>current_rel := Some (rels ! (length rels - 2))\<rparr>
           \<and> lookup (host w') (base @ [''current''])
                = Some (Symlink (os_path_join (base @ [''releases'']) (rels ! (length rels - 2))))
           \<and> lookup (host w') (base @ [''releases'', last rels]) = None
           \<and> (\<forall>d. \<not> prefix (base @ [''current'']) d \<and> \<not> prefix (base @ [''releases'', last rels]) d
                  \<longrightarrow> lookup (host w') d = lookup (host w) d)"
proof -
  let ?new = "rels ! (length rels - 2)"
  let ?old = "last rels"
  let ?w2 = "w\<lparr>self := (self w)\<lparr>current_rel := Some ?new\<rparr>\<rparr>"
  have r1: "releases w = (Inr rels, w)"
    using rels releases_frame [of w] by (cases "releases w") simp
  have "rels \<noteq> []" using len by auto
  then have "?old \<in> set rels" by simp
  then have "?old \<noteq> []" using releases_nonempty_names [OF rels] by auto
  then have old_path: "os_path_join (base @ [''releases'']) ?old = base @ [''releases'', ?old]"
    using plain by (simp add: os_path_join_plain)
  obtain fs' where
    s1: "symlink ?w2 = (Inr (), ?w2\<lparr>host := fs'\<rparr>)" and
    s2: "lookup fs' (base @ [''current'']) = Some (Symlink (os_path_join (base @ [''releases'']) ?new))" and
    s3: "\<forall>d. \<not> prefix (base @ [''current'']) d \<longrightarrow> lookup fs' d = lookup (host w) d"
    using symlink_ok [of ?w2 ?new base] rp cur base by auto
  let ?fs3 = "filter (\<lambda>(q, n). \<not> prefix (base @ [''releases'', ?old]) q) fs'"
  let ?w4 = "?w2\<lparr>host := ?fs3\<rparr>"
  have "rollback_release w = (Inr None, ?w4)"
    using r1 len s1 rp old_path
    by (simp add: rollback_release_def and_then_def run_def Let_def)
  moreover have "self ?w4 = (self w)\<lparr>current_rel := Some ?new\<rparr>" by simp
  moreover have "lookup (host ?w4) (base @ [''current''])
                = Some (Symlink (os_path_join (base @ [''releases'']) ?new))"
    using s2 by (simp add: lookup_rm_rf)
  moreover have "lookup (host ?w4) (base @ [''releases'', ?old]) = None"
    by (simp add: lookup_rm_rf)
  moreover have "\<forall>d. \<not> prefix (base @ [''current'']) d \<and> \<not> prefix (base @ [''releases'', ?old]) d
                  \<longrightarrow> lookup (host ?w4) d = lookup (host w) d"
    using s3 by (simp add: lookup_rm_rf)
  ultimately show ?thesis by blast
qed

lemma current_release_path_frame:
  "host (snd (current_release_path w)) = host w"
  "env_base_dir (snd (current_release_path w)) = env_base_dir w"
  "rollback_stack (self (snd (current_release_path w))) = rollback_stack (self w)"
  "shared_path (self (snd (current_release_path w))) = shared_path (self w)"
  "shared (self (snd (current_release_path w))) = shared (self w)"
  by (simp_all add: current_release_path_def current_release_def Let_def split: option.splits)

lemma link_shared_keeps_registration:
  "env_base_dir (snd (link_shared name create w)) = env_base_dir w \<and>
   rollback_stack (self (snd (link_shared name create w))) = rollback_stack (self w)"
proof -
  let ?P = "\<lambda>w'. env_base_dir w' = env_base_dir w \<and> rollback_stack (self w') = rollback_stack (self w)"
  obtain rp w1 where crp: "current_release_path w = (rp, w1)"
    by (cases "current_release_path w")
  then have w1: "?P w1" using current_release_path_frame(2,3) [of w] by simp
  have run_P: "?P (snd (run b c v))" if "?P v" for b c v
    using that by (simp add: run_frame)
  have "?P (snd (and_then
                (if \<not> exists (os_path_join (shared_path (self w1)) name) w1
                 then (if create then run False (Mkdir (os_path_join (shared_path (self w1)) name)) w1
                       else (Inl (SystemExit (''Shared path '' @ name @ '' does not exists'')), w1))
                 else (Inr [], w1))
                (\<lambda>_ w2.
                   if \<not> exists (os_path_join rp name) w2
                   then and_then (run False (Ln_s (os_path_join (shared_path (self w1)) name)
                                                 (os_path_join rp name)) w2) (\<lambda>_ w3. (Inr (), w3))
                   else (Inr (), w2))))"
  proof (rule and_then_preserves [where P = ?P])
    show "?P (snd (if \<not> exists (os_path_join (shared_path (self w1)) name) w1
                 then (if create then run False (Mkdir (os_path_join (shared_path (self w1)) name)) w1
                       else (Inl (SystemExit (''Shared path '' @ name @ '' does not exists'')), w1))
                 else (Inr [], w1)))"
      using w1 run_P [OF w1] by simp
  next
    fix x :: string and w2 :: world
    assume w2: "?P w2"
    have "?P (snd (and_then (run False c w2) (\<lambda>_ w3. (Inr (), w3))))" for c
      by (rule and_then_preserves [where P = ?P]) (use run_P [OF w2] in simp_all)
    then show "?P (snd (if \<not> exists (os_path_join rp name) w2
                   then and_then (run False (Ln_s (os_path_join (shared_path (self w1)) name)
                                                 (os_path_join rp name)) w2) (\<lambda>_ w3. (Inr (), w3))
                   else (Inr (), w2)))"
      using w2 by simp
  qed
  then show ?thesis using crp by (simp add: link_shared_def Let_def)
qed

lemma link_each_keeps_registration:
  "env_base_dir (snd (link_each names w)) = env_base_dir w \<and>
   rollback_stack (self (snd (link_each names w))) = rollback_stack (self w)"
proof (induction names arbitrary: w)
  case Nil
  show ?case by simp
next
  case (Cons name names)
  let ?P = "\<lambda>w'. env_base_dir w' = env_base_dir w \<and> rollback_stack (self w') = rollback_stack (self w)"
  have "?P (snd (and_then (link_shared name True w) (\<lambda>_ w1. link_each names w1)))"
  proof (rule and_then_preserves [where P = ?P])
    show "?P (snd (link_shared name True w))" by (rule link_shared_keeps_registration)
  next
    fix x :: unit and w1 :: world
    assume "?P w1"
    then show "?P (snd (link_each names w1))" using Cons.IH [of w1] by simp
  qed
  then show ?case by simp
qed

lemma create_release_registers:
  assumes "create_release w = (Inr (), w')"
  shows "env_base_dir w' = Some (fst (current_release_path w))
         \<and> rollback_stack (self w') = rollback_stack (self w) @ [Revert_release]"
proof -
  obtain p w1 where crp: "current_release_path w = (p, w1)"
    by (cases "current_release_path w")
  let ?w2 = "w1\<lparr>env_base_dir := Some p\<rparr>"
  from assms crp have
    "and_then (run False (Mkdir_p p) ?w2)
       (\<lambda>_ w3. link_each (shared (self (on_rollback Revert_release w3))) (on_rollback Revert_release w3))
     = (Inr (), w')"
    by (simp add: create_release_def Let_def)
  then obtain out w3 where
    r: "run False (Mkdir_p p) ?w2 = (Inr out, w3)" and
    l: "link_each (shared (self (on_rollback Revert_release w3))) (on_rollback Revert_release w3) = (Inr (), w')"
    by (blast dest: and_then_Inr)
  have "env_base_dir w3 = Some p" and "rollback_stack (self w3) = rollback_stack (self w)"
    using r run_frame(1,2) [of False "Mkdir_p p" ?w2] crp current_release_path_frame(3) [of w]
    by simp_all
  then have "env_base_dir (on_rollback Revert_release w3) = Some p"
    and "rollback_stack (self (on_rollback Revert_release w3)) = rollback_stack (self w) @ [Revert_release]"
    by (simp_all add: on_rollback_def)
  then show ?thesis
    using l link_each_keeps_registration [of "shared (self (on_rollback Revert_release w3))" "on_rollback Revert_release w3"] crp
    by simp
qed

lemma release_exit_failed_drains:
  assumes "rollback_stack (self w) = [Revert_release]" and "env_base_dir w = Some p" and "p \<noteq> []"
  shows "fst (release_exit (Some e) w) = Inr ()"
    and "host (snd (release_exit (Some e) w)) = filter (\<lambda>(q, n). \<not> prefix p q) (host w)"
  using assms
  by (simp_all add: release_exit_def transaction_exit_def warn_def execute_pseudo_task_def
        revert_release_def run_def and_then_def Let_def)

lemma revert_release_effect:
  "env_base_dir w = Some p \<Longrightarrow> p \<noteq> [] \<Longrightarrow>
   revert_release w = (Inr (), w\<lparr>host := filter (\<lambda>(q, n). \<not> prefix p q) (host w)\<rparr>)"
  by (simp add: revert_release_def run_def and_then_def)

section \<open>Listing, pruning and the exit of a failed deploy\<close>

text \<open>
  What \<open>cleanup\<close>, \<open>rollback_release\<close> and the exit of a failed body do in general,
  in terms of the sorted list of names that \<open>releases\<close> returns.
\<close>

lemma split_on_append_no_sep:
  "\<forall>c\<in>set s. \<not> sep c \<Longrightarrow> split_on sep acc (s @ rest) = split_on sep (acc @ s) rest"
  by (induction s arbitrary: acc) auto

lemma split_on_lines:
  assumes "\<forall>n\<in>set ns. n \<noteq> [] \<and> (\<forall>c\<in>set n. \<not> sep c)" and "sep nl"
  shows "split_on sep [] (concat (map (\<lambda>l. l @ [nl]) ns)) = ns"
  using assms
proof (induction ns)
  case Nil
  show ?case by simp
next
  case (Cons n ns)
  then have n: "n \<noteq> []" "\<forall>c\<in>set n. \<not> sep c" by auto
  have "split_on sep [] ((n @ [nl]) @ concat (map (\<lambda>l. l @ [nl]) ns))
        = split_on sep ([] @ n) ([nl] @ concat (map (\<lambda>l. l @ [nl]) ns))"
    using split_on_append_no_sep [OF n(2), of "[]" "[nl] @ concat (map (\<lambda>l. l @ [nl]) ns)"]
    by simp
  also have "\<dots> = n # split_on sep [] (concat (map (\<lambda>l. l @ [nl]) ns))"
    using n(1) Cons.prems(2) by simp
  finally show ?case using Cons by simp
qed

lemma py_split_unlines:
  "\<forall>n\<in>set ns. plain_name n \<Longrightarrow> py_split (unlines ns) = ns"
  unfolding py_split_def unlines_def
  by (rule split_on_lines) (auto simp: plain_name_def is_space_def)

lemma dir_names_iff: "n \<in> set (dir_names fs d) \<longleftrightarrow> d @ [n] \<in> fst ` set fs"
proof
  assume "n \<in> set (dir_names fs d)"
  then obtain q where "q \<in> fst ` set fs" "q \<noteq> []" "butlast q = d" "last q = n"
    by (auto simp: dir_names_def)
  then show "d @ [n] \<in> fst ` set fs" using append_butlast_last_id [of q] by simp
next
  assume "d @ [n] \<in> fst ` set fs"
  then have "d @ [n] \<in> set (filter (\<lambda>q. q \<noteq> [] \<and> butlast q = d) (map fst fs))" by simp
  then have "last (d @ [n]) \<in> set (dir_names fs d)"
    unfolding dir_names_def set_remdups set_map by (rule imageI)
  then show "n \<in> set (dir_names fs d)" by simp
qed

lemma set_listed: "set (listed fs d) = {n. \<not> hidden n \<and> lookup fs (d @ [n]) = Some Dir}"
proof -
  have "d @ [n] \<in> fst ` set fs" if "lookup fs (d @ [n]) = Some Dir" for n
    using that by (auto simp: lookup_def dest: map_of_SomeD intro: rev_image_eqI)
  then show ?thesis by (auto simp: listed_def glob_star_def dir_names_iff)
qed

lemma distinct_listed: "distinct (listed fs d)"
  by (simp add: listed_def glob_star_def dir_names_def)

lemma releases_eq:
  "releases w =
     (if lookup (host w) (release_path (self w)) = Some Dir \<and> glob_star (host w) (release_path (self w)) \<noteq> []
      then (Inr (sort (py_split (unlines (listed (host w) (release_path (self w)))))), w)
      else (Inl (SystemExit ''run() received nonzero return code''), w))"
  by (simp add: releases_def run_def and_then_def listed_def)

lemma rollback_release_noop:
  assumes "fst (releases w) = Inr rels" and "length rels < 2"
  shows "rollback_release w = (Inr (Some False), warn ''No previous release found'' w)"
proof -
  have "releases w = (Inr rels, w)"
    using assms(1) releases_frame [of w] by (cases "releases w") simp
  then show ?thesis using assms(2) by (simp add: rollback_release_def and_then_def)
qed

lemma rm_each_effect:
  assumes "\<forall>p\<in>set ps. p \<noteq> []"
  shows "\<exists>fs'. rm_each ps w = (Inr (), w\<lparr>host := fs'\<rparr>)
           \<and> (\<forall>q. lookup fs' q = (if \<exists>p\<in>set ps. prefix p q then None else lookup (host w) q))"
  using assms
proof (induction ps arbitrary: w)
  case Nil
  have "rm_each [] w = (Inr (), w\<lparr>host := host w\<rparr>)" by simp
  then show ?case by (intro exI [of _ "host w"]) simp
next
  case (Cons p ps)
  let ?w1 = "w\<lparr>host := filter (\<lambda>(q, n). \<not> prefix p q) (host w)\<rparr>"
  from Cons.prems have p: "p \<noteq> []" and ps: "\<forall>p\<in>set ps. p \<noteq> []" by auto
  from Cons.IH [OF ps, of ?w1] obtain fs' where
    r: "rm_each ps ?w1 = (Inr (), ?w1\<lparr>host := fs'\<rparr>)" and
    l: "\<forall>q. lookup fs' q = (if \<exists>p\<in>set ps. prefix p q then None else lookup (host ?w1) q)"
    by blast
  have "rm_each (p # ps) w = (Inr (), w\<lparr>host := fs'\<rparr>)"
    using p r by (simp add: run_def and_then_def)
  moreover have "\<forall>q. lookup fs' q = (if \<exists>p'\<in>set (p # ps). prefix p' q then None else lookup (host w) q)"
    using l p by (auto simp: lookup_rm_rf)
  ultimately show ?case by blast
qed

lemma releases_listed:
  assumes "fst (releases w) = Inr rels"
      and "\<forall>n\<in>set (listed (host w) (release_path (self w))). plain_name n"
  shows "lookup (host w) (release_path (self w)) = Some Dir"
    and "rels = sort (listed (host w) (release_path (self w)))"
  using assms by (auto simp: releases_eq py_split_unlines split: if_splits)

lemma os_path_join_plain_name: "plain_name n \<Longrightarrow> os_path_join a n = a @ [n]"
  by (rule os_path_join_plain) (auto simp: plain_name_def)

lemma cleanup_keeps_last_five:
  assumes rels: "fst (releases w) = Inr rels"
      and plain: "\<forall>n\<in>set (listed (host w) (release_path (self w))). plain_name n"
  shows "\<exists>w'. cleanup w = (Inr (), w') \<and> self w' = self w
           \<and> fst (releases w') = Inr (drop (length rels - 5) rels)
           \<and> (\<forall>d\<in>set (take (length rels - 5) rels).
                 lookup (host w') (release_path (self w) @ [d]) = None)
           \<and> (\<forall>d\<in>set (drop (length rels - 5) rels).
                 lookup (host w') (release_path (self w) @ [d]) = Some Dir)
           \<and> (\<forall>q. (\<forall>d\<in>set (take (length rels - 5) rels). \<not> prefix (release_path (self w) @ [d]) q)
                  \<longrightarrow> lookup (host w') q = lookup (host w) q)"
proof -
  let ?rp = "release_path (self w)"
  let ?k = "length rels - 5"
  have r1: "releases w = (Inr rels, w)"
    using rels releases_frame [of w] by (cases "releases w") simp
  note dir = releases_listed(1) [OF rels plain]
  note srt = releases_listed(2) [OF rels plain]
  have set_rels: "set rels = set (listed (host w) ?rp)" and dist: "distinct rels" and sorted: "sorted rels"
    using srt by (simp_all add: distinct_listed)
  have plain_rels: "\<forall>d\<in>set rels. plain_name d" using plain set_rels by simp
  have is_dir: "\<forall>d\<in>set rels. lookup (host w) (?rp @ [d]) = Some Dir"
    using set_rels by (simp add: set_listed)
  show ?thesis
  proof (cases "5 < length rels")
    case False
    then have "cleanup w = (Inr (), w)" using r1 by (simp add: cleanup_def and_then_def)
    then show ?thesis using False rels is_dir by simp
  next
    case True
    let ?old = "drop 5 (rev rels)"
    let ?ps = "map (\<lambda>d. os_path_join ?rp d) ?old"
    have old_set: "set ?old = set (take ?k rels)" by (simp add: drop_rev)
    have old_sub: "set ?old \<subseteq> set rels" using old_set by (auto dest: in_set_takeD)
    have ps: "?ps = map (\<lambda>d. ?rp @ [d]) ?old"
      using old_sub plain_rels by (auto simp: os_path_join_plain_name)
    have "\<forall>p\<in>set ?ps. p \<noteq> []" unfolding ps by simp
    from rm_each_effect [OF this, of w] obtain fs' where
      rm: "rm_each ?ps w = (Inr (), w\<lparr>host := fs'\<rparr>)" and
      lk: "\<forall>q. lookup fs' q = (if \<exists>p\<in>set ?ps. prefix p q then None else lookup (host w) q)"
      by blast
    let ?w' = "w\<lparr>host := fs'\<rparr>"
    have c: "cleanup w = (Inr (), ?w')"
      using r1 True rm by (simp add: cleanup_def and_then_def)
    have lk_child: "lookup fs' (?rp @ [n]) = (if n \<in> set (take ?k rels) then None else lookup (host w) (?rp @ [n]))" for n
    proof -
      have "(\<exists>p\<in>set ?ps. prefix p (?rp @ [n])) \<longleftrightarrow> n \<in> set ?old"
        unfolding ps by auto
      then show ?thesis using lk old_set by simp
    qed
    have lk_rp: "lookup fs' ?rp = Some Dir"
    proof -
      have "\<not> (\<exists>p\<in>set ?ps. prefix p ?rp)" unfolding ps by auto
      then show ?thesis using lk dir by simp
    qed
    have disj: "set (take ?k rels) \<inter> set (drop ?k rels) = {}"
      using dist by (simp add: set_take_disj_set_drop_if_distinct)
    have un: "set rels = set (take ?k rels) \<union> set (drop ?k rels)"
      using set_append [of "take ?k rels" "drop ?k rels"] by simp
    have set_after: "set (listed fs' ?rp) = set (drop ?k rels)"
    proof -
      have "set (listed fs' ?rp) = set (listed (host w) ?rp) - set (take ?k rels)"
        by (auto simp: set_listed lk_child split: if_splits)
      then show ?thesis using set_rels un disj by auto
    qed
    have "drop ?k rels \<noteq> []" using True by simp
    then have "listed fs' ?rp \<noteq> []" using set_after by (metis set_empty)
    then have glob: "glob_star fs' ?rp \<noteq> []" by (auto simp: listed_def)
    have plain_after: "\<forall>n\<in>set (listed fs' ?rp). plain_name n"
      using set_after plain_rels by (auto dest: in_set_dropD)
    have "sort (listed fs' ?rp) = drop ?k rels"
    proof (rule sorted_distinct_set_unique)
      show "sorted (sort (listed fs' ?rp))" by simp
      show "distinct (sort (listed fs' ?rp))" by (simp add: distinct_listed)
      show "sorted (drop ?k rels)" using sorted by (rule sorted_wrt_drop)
      show "distinct (drop ?k rels)" using dist by simp
      show "set (sort (listed fs' ?rp)) = set (drop ?k rels)" using set_after by simp
    qed
    then have after: "fst (releases ?w') = Inr (drop ?k rels)"
      using lk_rp glob plain_after by (simp add: releases_eq py_split_unlines)
    have gone: "\<forall>d\<in>set (take ?k rels). lookup (host ?w') (?rp @ [d]) = None"
      by (simp add: lk_child)
    have kept: "\<forall>d\<in>set (drop ?k rels). lookup (host ?w') (?rp @ [d]) = Some Dir"
      using disj is_dir by (auto simp: lk_child dest: in_set_dropD)
    have frame: "\<forall>q. (\<forall>d\<in>set (take ?k rels). \<not> prefix (?rp @ [d]) q)
                  \<longrightarrow> lookup (host ?w') q = lookup (host w) q"
    proof (intro allI impI)
      fix q
      assume "\<forall>d\<in>set (take ?k rels). \<not> prefix (?rp @ [d]) q"
      then have "\<not> (\<exists>p\<in>set ?ps. prefix p q)" unfolding ps using old_set by auto
      then show "lookup (host ?w') q = lookup (host w) q" using lk by simp
    qed
    from c after gone kept frame show ?thesis by (intro exI [of _ ?w']) simp
  qed
qed

lemma ensure_dir_frame:
  "self (ensure_dir p w) = self w"
  "env_base_dir (ensure_dir p w) = env_base_dir w"
  "clock_now (ensure_dir p w) = clock_now w"
  "clock_today (ensure_dir p w) = clock_today w"
  by (simp_all add: ensure_dir_def run_frame)

lemma release_enter_registers:
  assumes enter: "release_enter w = (Inr (), w1)"
  shows "env_base_dir w1 = Some (fst (current_release_path w))
         \<and> rollback_stack (self w1) = rollback_stack (self w) @ [Revert_release]"
proof -
  let ?w0 = "ensure_dir (shared_path (self w)) (ensure_dir (release_path (self w)) w)"
  from enter have "release_setup w = (Inr (), w1)"
    by (auto simp: release_enter_def execute_pseudo_task_def transaction_enter_def
             dest!: and_then_Inr)
  then have c: "create_release ?w0 = (Inr (), w1)"
    by (auto simp: release_setup_def split: if_splits)
  have "fst (current_release_path ?w0) = fst (current_release_path w)"
    by (simp add: current_release_path_def current_release_def ensure_dir_frame Let_def
             split: option.splits)
  then show ?thesis using create_release_registers [OF c] by (simp add: ensure_dir_frame)
qed

lemma failed_body_removes_release_dir:
  assumes enter: "release_enter w = (Inr (), w1)"
      and empty: "rollback_stack (self w) = []"
      and body: "body w1 = (Inl e, w2)"
      and env: "env_base_dir w2 = env_base_dir w1"
      and stack: "rollback_stack (self w2) = rollback_stack (self w1)"
      and d: "fst (current_release_path w) \<noteq> []"
  shows "fst (with_release body w) = Inl e
         \<and> host (snd (with_release body w))
             = filter (\<lambda>(q, n). \<not> prefix (fst (current_release_path w)) q) (host w2)"
proof -
  let ?d = "fst (current_release_path w)"
  have reg: "env_base_dir w2 = Some ?d" "rollback_stack (self w2) = [Revert_release]"
    using release_enter_registers [OF enter] empty env stack by simp_all
  have x: "fst (release_exit (Some e) w2) = Inr ()"
          "host (snd (release_exit (Some e) w2)) = filter (\<lambda>(q, n). \<not> prefix ?d q) (host w2)"
    using release_exit_failed_drains [OF reg(2) reg(1) d] by simp_all
  obtain w3 where w3: "release_exit (Some e) w2 = (Inr (), w3)"
    using x(1) by (cases "release_exit (Some e) w2") auto
  then have "with_release body w = (Inl e, w3)"
    using enter body by (simp add: with_release_def and_then_def)
  then show ?thesis using x(2) w3 by simp
qed

lemma enter_failure_skips_exit:
  "release_enter w = (Inl e, w1) \<Longrightarrow> with_release body w = (Inl e, w1)"
  by (simp add: with_release_def)

lemma set_glob_star: "set (glob_star fs d) = {n. \<not> hidden n \<and> lookup fs (d @ [n]) \<noteq> None}"
proof -
  have "d @ [n] \<in> fst ` set fs \<longleftrightarrow> lookup fs (d @ [n]) \<noteq> None" for n
    by (simp add: lookup_def map_of_eq_None_iff)
  then show ?thesis by (auto simp: glob_star_def dir_names_iff)
qed

lemma releases_cong:
  assumes same: "\<forall>n. lookup (host w') (release_path (self w) @ [n]) = lookup (host w) (release_path (self w) @ [n])"
      and dir: "lookup (host w') (release_path (self w)) = lookup (host w) (release_path (self w))"
      and self: "self w' = self w"
      and plain: "\<forall>n\<in>set (listed (host w) (release_path (self w))). plain_name n"
  shows "fst (releases w') = fst (releases w)"
    and "set (listed (host w') (release_path (self w'))) = set (listed (host w) (release_path (self w)))"
proof -
  let ?rp = "release_path (self w)"
  have g: "set (glob_star (host w') ?rp) = set (glob_star (host w) ?rp)"
    using same by (simp add: set_glob_star)
  then have g': "glob_star (host w') ?rp = [] \<longleftrightarrow> glob_star (host w) ?rp = []"
    by (metis set_empty)
  show l: "set (listed (host w') (release_path (self w'))) = set (listed (host w) ?rp)"
    using same self by (simp add: set_listed)
  then have plain': "\<forall>n\<in>set (listed (host w') ?rp). plain_name n" using plain self by simp
  have "sort (listed (host w') ?rp) = sort (listed (host w) ?rp)"
    by (rule sorted_distinct_set_unique) (use l self in \<open>simp_all add: distinct_listed\<close>)
  then show "fst (releases w') = fst (releases w)"
    using dir g' self plain plain' by (simp add: releases_eq py_split_unlines)
qed

lemma release_exit_promotes:
  assumes rel: "current_rel (self w) = Some r" and pr: "plain_name r"
      and rp: "release_path (self w) = base @ [''releases'']"
      and cur: "current_path (self w) = base @ [''current'']"
      and base: "lookup (host w) base = Some Dir"
      and rels: "fst (releases w) = Inr rels"
      and plain: "\<forall>n\<in>set (listed (host w) (release_path (self w))). plain_name n"
  shows "\<exists>w'. release_exit None w = (Inr (), w')
           \<and> lookup (host w') (base @ [''current'']) = Some (Symlink (base @ [''releases'', r]))
           \<and> lookup (host w') (base @ [''releases'', r])
               = (if r \<in> set (take (length rels - 5) rels) then None
                  else lookup (host w) (base @ [''releases'', r]))"
proof -
  let ?cur = "base @ [''current'']"
  let ?k = "length rels - 5"
  have j: "os_path_join (release_path (self w)) r = base @ [''releases'', r]"
    using pr rp by (simp add: os_path_join_plain_name)
  from symlink_ok [OF rel cur base] j obtain fs' where
    s1: "symlink w = (Inr (), w\<lparr>host := fs'\<rparr>)" and
    s2: "lookup fs' ?cur = Some (Symlink (base @ [''releases'', r]))" and
    s3: "\<forall>d. \<not> prefix ?cur d \<longrightarrow> lookup fs' d = lookup (host w) d"
    by auto
  let ?w1 = "w\<lparr>host := fs'\<rparr>"
  have child: "lookup (host ?w1) (release_path (self w) @ [n]) = lookup (host w) (release_path (self w) @ [n])" for n
    using s3 rp by simp
  have dir: "lookup (host ?w1) (release_path (self w)) = lookup (host w) (release_path (self w))"
    using s3 rp by simp
  have rels1: "fst (releases ?w1) = Inr rels"
    using releases_cong(1) [of ?w1 w] child dir plain rels by simp
  have plain1: "\<forall>n\<in>set (listed (host ?w1) (release_path (self ?w1))). plain_name n"
    using releases_cong(2) [of ?w1 w] child dir plain by simp
  from cleanup_keeps_last_five [OF rels1 plain1] obtain w2 where
    c1: "cleanup ?w1 = (Inr (), w2)" and
    c2: "\<forall>d\<in>set (take ?k rels). lookup (host w2) (release_path (self ?w1) @ [d]) = None" and
    c3: "\<forall>q. (\<forall>d\<in>set (take ?k rels). \<not> prefix (release_path (self ?w1) @ [d]) q)
              \<longrightarrow> lookup (host w2) q = lookup (host ?w1) q"
    by blast
  let ?w3 = "w2\<lparr>self := (self w2)\<lparr>rollback_stack := []\<rparr>\<rparr>"
  have x: "release_exit None w = (Inr (), ?w3)"
    using s1 c1
    by (simp add: release_exit_def execute_pseudo_task_def and_then_def transaction_exit_def)
  have "\<forall>d\<in>set (take ?k rels). \<not> prefix (release_path (self ?w1) @ [d]) ?cur"
    using rp by simp
  then have l1: "lookup (host ?w3) ?cur = Some (Symlink (base @ [''releases'', r]))"
    using c3 s2 by simp
  have l2: "lookup (host ?w3) (base @ [''releases'', r])
               = (if r \<in> set (take ?k rels) then None else lookup (host w) (base @ [''releases'', r]))"
  proof (cases "r \<in> set (take ?k rels)")
    case True
    then show ?thesis using c2 rp by simp
  next
    case False
    then have "\<forall>d\<in>set (take ?k rels). \<not> prefix (release_path (self ?w1) @ [d]) (base @ [''releases'', r])"
      using rp by auto
    then have "lookup (host w2) (base @ [''releases'', r]) = lookup (host ?w1) (base @ [''releases'', r])"
      using c3 by blast
    moreover have "lookup (host ?w1) (base @ [''releases'', r]) = lookup (host w) (base @ [''releases'', r])"
      using s3 by simp
    ultimately show ?thesis using False by simp
  qed
  from x l1 l2 show ?thesis by blast
qed

subsection \<open>What the methods do to the cached release name\<close>

text \<open>
  Once the instance holds a release name, \<open>link_shared\<close>, the loop over the shared
  paths, \<open>symlink\<close> and \<open>cleanup\<close> leave the instance as it is, whether they return or
  raise; \<open>create_release\<close> ends with the name that its first \<open>current_release\<close>
  returned, though it has pushed an action on the rollback stack in between.
\<close>

lemma link_shared_self:
  assumes c: "current_rel (self w) = Some r"
  shows "self (snd (link_shared name create w)) = self w"
proof -
  let ?P = "\<lambda>w'. self w' = self w"
  have crp: "current_release_path w = (os_path_join (release_path (self w)) r, w)"
    using c by (simp add: current_release_path_def current_release_def)
  have run_P: "?P (snd (run b cmd v))" if "?P v" for b cmd v
    using that by (simp add: run_frame)
  have "?P (snd (and_then
                (if \<not> exists (os_path_join (shared_path (self w)) name) w
                 then (if create then run False (Mkdir (os_path_join (shared_path (self w)) name)) w
                       else (Inl (SystemExit (''Shared path '' @ name @ '' does not exists'')), w))
                 else (Inr [], w))
                (\<lambda>_ w2.
                   if \<not> exists (os_path_join (os_path_join (release_path (self w)) r) name) w2
                   then and_then (run False (Ln_s (os_path_join (shared_path (self w)) name)
                                                 (os_path_join (os_path_join (release_path (self w)) r) name)) w2)
                          (\<lambda>_ w3. (Inr (), w3))
                   else (Inr (), w2))))"
  proof (rule and_then_preserves [where P = ?P])
    show "?P (snd (if \<not> exists (os_path_join (shared_path (self w)) name) w
                 then (if create then run False (Mkdir (os_path_join (shared_path (self w)) name)) w
                       else (Inl (SystemExit (''Shared path '' @ name @ '' does not exists'')), w))
                 else (Inr [], w)))"
      by (simp add: run_frame)
  next
    fix x :: string and w2 :: world
    assume w2: "?P w2"
    have "?P (snd (and_then (run False cmd w2) (\<lambda>_ w3. (Inr (), w3))))" for cmd
      by (rule and_then_preserves [where P = ?P]) (use run_P [OF w2] in simp_all)
    then show "?P (snd (if \<not> exists (os_path_join (os_path_join (release_path (self w)) r) name) w2
                   then and_then (run False (Ln_s (os_path_join (shared_path (self w)) name)
                                                 (os_path_join (os_path_join (release_path (self w)) r) name)) w2)
                          (\<lambda>_ w3. (Inr (), w3))
                   else (Inr (), w2)))"
      using w2 by simp
  qed
  then show ?thesis using crp by (simp add: link_shared_def Let_def)
qed

lemma link_each_self:
  "current_rel (self w) = Some r \<Longrightarrow> self (snd (link_each names w)) = self w"
proof (induction names arbitrary: w)
  case Nil
  show ?case by simp
next
  case (Cons name names)
  let ?P = "\<lambda>w'. self w' = self w"
  have "?P (snd (and_then (link_shared name True w) (\<lambda>_ w1. link_each names w1)))"
  proof (rule and_then_preserves [where P = ?P])
    show "?P (snd (link_shared name True w))" using Cons.prems by (rule link_shared_self)
  next
    fix x :: unit and w1 :: world
    assume "?P w1"
    then show "?P (snd (link_each names w1))" using Cons.IH [of w1] Cons.prems by simp
  qed
  then show ?case by simp
qed

lemma rm_each_self: "self (snd (rm_each ps w)) = self w"
proof (induction ps arbitrary: w)
  case Nil
  show ?case by simp
next
  case (Cons p ps)
  have "self (snd (and_then (run False (Rm_rf p) w) (\<lambda>_ w1. rm_each ps w1))) = self w"
    by (rule and_then_preserves [where P = "\<lambda>w'. self w' = self w"])
       (simp_all add: run_frame Cons.IH)
  then show ?case by simp
qed

lemma cleanup_self: "self (snd (cleanup w)) = self w"
  unfolding cleanup_def
  by (rule and_then_preserves [where P = "\<lambda>w'. self w' = self w"])
     (simp_all add: releases_frame rm_each_self)

lemma create_release_current_rel:
  "current_rel (self (snd (create_release w))) = Some (fst (current_release w))"
proof -
  obtain r w1 where cr: "current_release w = (r, w1)" by (cases "current_release w")
  let ?P = "\<lambda>w'. current_rel (self w') = Some r"
  from cr have c1: "current_rel (self w1) = Some r"
    by (auto simp: current_release_def Let_def split: option.splits)
  let ?p = "os_path_join (release_path (self w1)) r"
  let ?w2 = "w1\<lparr>env_base_dir := Some ?p\<rparr>"
  have "?P (snd (and_then (run False (Mkdir_p ?p) ?w2)
                   (\<lambda>_ w3. link_each (shared (self (on_rollback Revert_release w3)))
                               (on_rollback Revert_release w3))))"
  proof (rule and_then_preserves [where P = ?P])
    show "?P (snd (run False (Mkdir_p ?p) ?w2))" using c1 by (simp add: run_frame)
  next
    fix x :: string and w3 :: world
    assume "?P w3"
    then have "current_rel (self (on_rollback Revert_release w3)) = Some r"
      by (simp add: on_rollback_def)
    then show "?P (snd (link_each (shared (self (on_rollback Revert_release w3)))
                          (on_rollback Revert_release w3)))"
      by (simp add: link_each_self)
  qed
  then show ?thesis using cr by (simp add: create_release_def current_release_path_def Let_def)
qed

subsection \<open>What a rollback does with the list that \<open>releases\<close> returns\<close>

text \<open>
  \<open>rollback_release\<close> works on the list that \<open>releases\<close> returns, which is sorted as
  byte strings: it links \<^verbatim>\<open>current\<close> to the last but one name, caches that name and
  removes the directory of the last name.
\<close>

lemma rollback_release_on_listed_three:
  assumes rp: "release_path (self w) = release_path (init bp sh)"
      and cur: "current_path (self w) = current_path (init bp sh)"
      and base: "lookup (host w) (components bp) = Some Dir"
      and rels: "fst (releases w) = Inr [A, B, C]"
      and plain: "\<forall>n\<in>set (listed (host w) (release_path (self w))). plain_name n"
  shows "case rollback_release w of
           (r, w') \<Rightarrow>
             r = Inr None
             \<and> lookup (host w') (components bp @ [''current''])
                 = Some (Symlink (components bp @ [''releases'', B]))
             \<and> lookup (host w') (components bp @ [''releases'', B]) = Some Dir
             \<and> current_rel (self w') = Some B
             \<and> lookup (host w') (components bp @ [''releases'', C]) = None"
proof -
  let ?base = "components bp"
  have rp': "release_path (self w) = ?base @ [''releases'']"
    and cur': "current_path (self w) = ?base @ [''current'']"
    using rp cur by (simp_all add: init_layout)
  note srt = releases_listed(2) [OF rels plain]
  have set_rels: "set [A, B, C] = set (listed (host w) (release_path (self w)))"
    using arg_cong [OF srt, of set] by simp
  have dist: "distinct [A, B, C]"
    using arg_cong [OF srt, of distinct] by (simp add: distinct_listed)
  have pB: "plain_name B" and pC: "plain_name C" using plain set_rels by auto
  have dirB: "lookup (host w) (?base @ [''releases'', B]) = Some Dir"
    using set_rels set_listed [of "host w" "release_path (self w)"] rp' by auto
  have b: "os_path_join (?base @ [''releases'']) B = ?base @ [''releases'', B]"
    using pB by (simp add: os_path_join_plain_name)
  have c: "CHR ''/'' \<notin> set (last [A, B, C])" using pC by (auto simp: plain_name_def)
  from rollback_release_ok [OF rels _ rp' cur' base c]
  obtain w' where
    r: "rollback_release w = (Inr None, w')" and
    s: "self w' = (self w)\<lparr>current_rel := Some B\<rparr>" and
    l: "lookup (host w') (?base @ [''current''])
          = Some (Symlink (os_path_join (?base @ [''releases'']) B))" and
    g: "lookup (host w') (?base @ [''releases'', C]) = None" and
    f: "\<forall>d. \<not> prefix (?base @ [''current'']) d \<and> \<not> prefix (?base @ [''releases'', C]) d
          \<longrightarrow> lookup (host w') d = lookup (host w) d"
    by auto
  have "\<not> prefix (?base @ [''current'']) (?base @ [''releases'', B])" by simp
  moreover have "\<not> prefix (?base @ [''releases'', C]) (?base @ [''releases'', B])"
    using dist by auto
  ultimately have "lookup (host w') (?base @ [''releases'', B]) = Some Dir"
    using f dirB by simp
  then show ?thesis using r s l g b by simp
qed

lemma rollback_release_caches_last_but_one:
  assumes ok: "rollback_release w = (Inr None, w')" and rels: "fst (releases w) = Inr rels"
  shows "2 \<le> length rels
         \<and> self w' = (self w)\<lparr>current_rel := Some (rels ! (length rels - 2))\<rparr>"
proof -
  let ?new = "rels ! (length rels - 2)"
  let ?w2 = "w\<lparr>self := (self w)\<lparr>current_rel := Some ?new\<rparr>\<rparr>"
  have r1: "releases w = (Inr rels, w)"
    using rels releases_frame [of w] by (cases "releases w") simp
  have len: "2 \<le> length rels"
    using ok r1 by (auto simp: rollback_release_def and_then_def split: if_splits)
  have s: "self (snd (symlink ?w2)) = self ?w2" by (rule symlink_self [of _ ?new]) simp
  from ok r1 len have
    "and_then (symlink ?w2)
       (\<lambda>_ w3. and_then (run False (Rm_rf (os_path_join (release_path (self w3)) (last rels))) w3)
                  (\<lambda>_ w4. (Inr (None :: bool option), w4))) = (Inr None, w')"
    by (simp add: rollback_release_def and_then_Inr_eq Let_def)
  then obtain u w3 where
    s3: "symlink ?w2 = (Inr u, w3)" and
    "and_then (run False (Rm_rf (os_path_join (release_path (self w3)) (last rels))) w3)
       (\<lambda>_ w4. (Inr (None :: bool option), w4)) = (Inr None, w')"
    by (blast dest: and_then_Inr)
  then obtain v w4 where
    "run False (Rm_rf (os_path_join (release_path (self w3)) (last rels))) w3 = (Inr v, w4)"
    and "w4 = w'"
    by (auto dest!: and_then_Inr)
  then have "self w' = self w3" by (auto dest: run_self)
  moreover have "self w3 = self ?w2" using s s3 by simp
  ultimately have "self w' = self ?w2" by simp
  then show ?thesis using len by simp
qed

section \<open>The claims\<close>

subsection \<open>C1: release names and chronological order\<close>

text \<open>
  C1 says that for two release names generated on different dates, or on the same date at
  different seconds since midnight, the lexicographic comparison of the names is their
  chronological order. The seconds are written without padding, so on one date the
  comparison fails as soon as the two numerals differ in length: the name generated at
  03:00:00 (10800 seconds) is smaller than the name generated at 02:45:00 (9900 seconds)
  of the same day, and \<open>releases\<close>, which sorts the names, lists the later release
  first. The rest of the claim holds: \<open>gen_rel_different_dates\<close> for two dates, and
  \<open>gen_rel_same_date_same_width\<close> for one date and seconds of the same number of
  digits.
\<close>

theorem gen_rel_same_day_not_chronological:
  "seconds_of (at_time 2 45 0) < seconds_of (at_time 3 0 0)
   \<and> gen_rel (at_time 2 45 0) day0 = ''2013-01-05.9900''
   \<and> gen_rel (at_time 3 0 0) day0 = ''2013-01-05.10800''
   \<and> gen_rel (at_time 3 0 0) day0 < gen_rel (at_time 2 45 0) day0
   \<and> sort [gen_rel (at_time 2 45 0) day0, gen_rel (at_time 3 0 0) day0]
       = [gen_rel (at_time 3 0 0) day0, gen_rel (at_time 2 45 0) day0]"
  by (simp add: seconds_of_def model_defs example_defs)

subsection \<open>C2: pruning\<close>

text \<open>
  C2 says that after \<open>cleanup\<close> at most five release directories remain and that they
  are the five chronologically newest. \<open>cleanup\<close> keeps the last five names of the
  sorted list and removes the others (\<open>cleanup_keeps_last_five\<close>). With the six
  releases of the night of 2013-01-05, the release made last, at 03:00, is the first of
  the sorted list: it is the one directory \<open>cleanup\<close> removes, and the five older
  releases are what remains.
\<close>

theorem cleanup_removes_newest_release:
  "case cleanup six_world of
     (r, w') \<Rightarrow>
       r = Inr ()
       \<and> lookup (host w') (app @ [''releases'', gen_rel (at_time 3 0 0) day0]) = None
       \<and> fst (releases w') = Inr (map (\<lambda>t. gen_rel t day0) night_times)"
  by (simp add: model_defs example_defs)

subsection \<open>C3: a deploy that fails after the release directory was created\<close>

text \<open>
  C3 says that whenever a scoped deploy fails after the new release directory was
  created, also while the shared paths are linked, the directory is gone after the scope.
  The directory is created and the shared paths are linked inside \<^verbatim>\<open>__enter__\<close>; when
  linking fails there, the \<^verbatim>\<open>with\<close> statement never calls \<^verbatim>\<open>__exit__\<close>, and the
  registered \<open>Revert_release\<close> is never run. With the nested shared path
  \<^verbatim>\<open>uploads/img\<close> on a fresh host, \<^verbatim>\<open>mkdir /srv/app/shared/uploads/img\<close> fails (its
  parent is missing) after \<^verbatim>\<open>mkdir -p\<close> has made the release directory: whatever the
  body is, the deploy aborts, the release directory stays on the host and the
  compensating action stays on the stack. No failure of \<^verbatim>\<open>__enter__\<close> is followed by
  the exit (\<open>enter_failure_skips_exit\<close>). When it is the body that fails, the directory
  is removed and nothing else is touched (\<open>failed_body_removes_release_dir\<close>).
\<close>

theorem link_failure_leaves_release_dir:
  "case with_release body nested_world of
     (r, w') \<Rightarrow>
       r = Inl (SystemExit ''run() received nonzero return code'')
       \<and> lookup (host w') (app @ [''releases'', gen_rel (at_time 3 0 0) day0]) = Some Dir
       \<and> rollback_stack (self w') = [Revert_release]"
  by (simp add: model_defs example_defs)

subsection \<open>C4: promotion\<close>

text \<open>
  C4 says that after a deploy whose body succeeds, \<^verbatim>\<open>current\<close> resolves to the release
  directory created by that deploy, however many releases there were before. Promotion
  and then pruning do run, in this order. On the host of the night of 2013-01-05 the
  deploy of 03:00, with a body that does nothing, ends without an error; \<^verbatim>\<open>current\<close>
  is then a link to the new release directory, which pruning has removed (its name sorts
  before the five others): \<^verbatim>\<open>current\<close> resolves to nothing. In general
  (\<open>release_exit_promotes\<close>) the exit of a successful body makes \<^verbatim>\<open>current\<close> a link
  to the path of the new release, and removes the directory at that path exactly when
  its name is not among the last five of the sorted names.
\<close>

theorem deploy_prunes_promoted_release:
  "case with_release (\<lambda>w. (Inr (), w)) night_world of
     (r, w') \<Rightarrow>
       r = Inr ()
       \<and> current_rel (self w') = Some (gen_rel (at_time 3 0 0) day0)
       \<and> lookup (host w') (app @ [''current''])
           = Some (Symlink (app @ [''releases'', gen_rel (at_time 3 0 0) day0]))
       \<and> lookup (host w') (app @ [''releases'', gen_rel (at_time 3 0 0) day0]) = None
       \<and> \<not> exists (app @ [''current'']) w'"
  by (simp add: model_defs example_defs)

subsection \<open>C5: rolling back to the previous release\<close>

text \<open>
  C5 says that with the releases \<open>[A, B, C]\<close>, sorted from the oldest to the newest,
  \<open>rollback_release\<close> points \<^verbatim>\<open>current\<close> at \<open>B\<close>, makes \<open>B\<close> the current release of
  the manager and deletes the directory of \<open>C\<close>. The method takes the last and the
  last but one name of the list that \<open>releases\<close> returns, and that list is sorted as
  byte strings. On a host with three releases made on one day at 02:40 (\<open>A\<close>), 02:45
  (\<open>B\<close>) and 03:00 (\<open>C\<close>), with \<^verbatim>\<open>current\<close> at \<open>C\<close>, the list is \<open>[C, A, B]\<close>: the
  method returns \<^verbatim>\<open>None\<close>, \<^verbatim>\<open>current\<close> points at \<open>A\<close>, the oldest release, which is
  also what the manager holds, the directory of \<open>B\<close> is deleted and the directory of
  \<open>C\<close>, the release that was rolled back, is still there. When the byte order of the
  three names is their order in time, the method does what the claim says
  (\<open>rollback_release_on_listed_three\<close>).
\<close>

theorem rollback_release_reverts_to_oldest:
  "fst (releases same_day_world)
     = Inr [gen_rel (at_time 3 0 0) day0, gen_rel (at_time 2 40 0) day0, gen_rel (at_time 2 45 0) day0]
   \<and> (case rollback_release same_day_world of
         (r, w') \<Rightarrow>
           r = Inr None
           \<and> lookup (host w') (app @ [''current''])
               = Some (Symlink (app @ [''releases'', gen_rel (at_time 2 40 0) day0]))
           \<and> current_rel (self w') = Some (gen_rel (at_time 2 40 0) day0)
           \<and> lookup (host w') (app @ [''releases'', gen_rel (at_time 2 45 0) day0]) = None
           \<and> lookup (host w') (app @ [''releases'', gen_rel (at_time 3 0 0) day0]) = Some Dir)"
  by (simp add: model_defs example_defs)

subsection \<open>C6: rolling back with fewer than two releases\<close>

text \<open>
  C6 says that with fewer than two releases, zero included, \<open>rollback_release\<close> warns,
  returns its sentinel and leaves the host alone. With no release, the directory
  \<^verbatim>\<open>releases\<close> is empty: the pattern of \<^verbatim>\<open>find *\<close> matches nothing, \<^verbatim>\<open>find\<close> exits with
  status 1 and \<^verbatim>\<open>run\<close> aborts inside \<open>releases\<close>, before the test on the length of
  the list. The method raises \<^verbatim>\<open>SystemExit\<close>; it prints no warning and returns nothing.
  The host is left as it was. When \<open>releases\<close> does return a list of fewer than two
  names, the method warns and returns \<^verbatim>\<open>False\<close> (\<open>rollback_release_noop\<close>).
\<close>

theorem rollback_release_aborts_without_releases:
  "rollback_release empty_world
     = (Inl (SystemExit ''run() received nonzero return code''), empty_world)"
  by (simp add: model_defs example_defs)

subsection \<open>C7: a shared path that is missing and may not be created\<close>

text \<open>
  C7: when \<open>link_shared\<close> is called for a name without permission to create it
  (\<^verbatim>\<open>create=False\<close>, the default of the method) and nothing exists at that name under the
  shared path (\<^verbatim>\<open>test -e\<close> fails), the call is fatal: Fabric's \<^verbatim>\<open>error\<close> aborts with
  \<^verbatim>\<open>SystemExit\<close>. Nothing was run on the host: no release directory and no link was
  created, the host is what it was.
\<close>

theorem link_shared_missing_is_fatal:
  assumes "\<not> exists (os_path_join (shared_path (self w)) name) w"
  shows "case link_shared name False w of
           (r, w') \<Rightarrow>
             r = Inl (SystemExit (''Shared path '' @ name @ '' does not exists''))
             \<and> host w' = host w"
proof -
  obtain rp w1 where crp: "current_release_path w = (rp, w1)"
    by (cases "current_release_path w")
  then have "host w1 = host w" and "shared_path (self w1) = shared_path (self w)"
    using current_release_path_frame(1,4) [of w] by simp_all
  then have "\<not> exists (os_path_join (shared_path (self w1)) name) w1"
    using assms by (simp add: exists_def)
  then show ?thesis
    using crp \<open>host w1 = host w\<close> by (simp add: link_shared_def and_then_def Let_def)
qed

theorem link_shared_missing_is_fatal_witness:
  "\<not> exists (os_path_join (shared_path (self empty_world)) ''log'') empty_world
   \<and> (case link_shared ''log'' False empty_world of
         (r, w') \<Rightarrow>
           r = Inl (SystemExit (''Shared path '' @ ''log'' @ '' does not exists''))
           \<and> host w' = host empty_world)"
proof -
  have h: "\<not> exists (os_path_join (shared_path (self empty_world)) ''log'') empty_world"
    by (simp add: model_defs example_defs)
  from link_shared_missing_is_fatal [OF h] h show ?thesis by blast
qed

subsection \<open>C8: the release name is generated once\<close>

text \<open>
  C8: the release name is computed at most once per instance. Whatever the first call of
  \<open>current_release\<close> returns is stored in the instance, and every call in a world whose
  instance still holds that name returns it and leaves the world as it is, whatever else
  of the instance, the host or the clock has changed since. The methods that a deploy
  runs keep the name (\<open>create_release_current_rel\<close>, \<open>link_each_self\<close>,
  \<open>symlink_self\<close>, \<open>cleanup_self\<close>); \<open>rollback_release\<close> alone assigns another one,
  taken from the host. In the example the second call is made after \<open>on_rollback\<close> has
  pushed an action on the rollback stack, at 23:59:59 with the date of the next day.
\<close>

theorem current_release_cached:
  assumes "current_release w = (r, w1)"
  shows "current_rel (self w1) = Some r
         \<and> (\<forall>w2. current_rel (self w2) = Some r \<longrightarrow> current_release w2 = (r, w2))"
  using assms by (auto simp: current_release_def Let_def split: option.splits)

theorem current_release_cached_witness:
  "current_release night_world
     = (''2013-01-05.10800'',
        night_world\<lparr>self := (self night_world)\<lparr>current_rel := Some ''2013-01-05.10800''\<rparr>\<rparr>)
   \<and> current_rel (self (on_rollback Revert_release
         (night_world\<lparr>self := (self night_world)\<lparr>current_rel := Some ''2013-01-05.10800''\<rparr>,
                      clock_now := at_time 23 59 59,
                      clock_today := \<lparr>year = 2013, month = 1, day = 6\<rparr>\<rparr>)))
       = Some ''2013-01-05.10800''
   \<and> current_release (on_rollback Revert_release
         (night_world\<lparr>self := (self night_world)\<lparr>current_rel := Some ''2013-01-05.10800''\<rparr>,
                      clock_now := at_time 23 59 59,
                      clock_today := \<lparr>year = 2013, month = 1, day = 6\<rparr>\<rparr>))
     = (''2013-01-05.10800'',
        on_rollback Revert_release
         (night_world\<lparr>self := (self night_world)\<lparr>current_rel := Some ''2013-01-05.10800''\<rparr>,
                      clock_now := at_time 23 59 59,
                      clock_today := \<lparr>year = 2013, month = 1, day = 6\<rparr>\<rparr>))"
proof -
  let ?w1 = "night_world\<lparr>self := (self night_world)\<lparr>current_rel := Some ''2013-01-05.10800''\<rparr>\<rparr>"
  let ?w2 = "on_rollback Revert_release
               (?w1\<lparr>clock_now := at_time 23 59 59, clock_today := \<lparr>year = 2013, month = 1, day = 6\<rparr>\<rparr>)"
  have h: "current_release night_world = (''2013-01-05.10800'', ?w1)"
    by (simp add: model_defs example_defs)
  have s: "current_rel (self ?w2) = Some ''2013-01-05.10800''"
    by (simp add: on_rollback_def)
  from current_release_cached [OF h] s have "current_release ?w2 = (''2013-01-05.10800'', ?w2)"
    by blast
  with h s show ?thesis by simp
qed

subsection \<open>C9: the release a rollback caches\<close>

text \<open>
  C9 says that after a successful \<open>rollback_release\<close> the cached release of the
  instance is the second newest release, so that later calls of \<open>current_release\<close> and
  \<open>current_release_path\<close> refer to that release. The method caches the last but one
  name of the list that \<open>releases\<close> returns (\<open>rollback_release_caches_last_but_one\<close>),
  and that list is sorted as byte strings. On the host with three releases of one day,
  made at 02:40, 02:45 and 03:00, the method returns \<^verbatim>\<open>None\<close> and the cached name is
  that of 02:40, the oldest release, not that of 02:45; a later \<open>current_release\<close>
  returns the name of 02:40 and \<open>current_release_path\<close> its directory. No name is
  generated from the time of the later call.
\<close>

theorem rollback_release_caches_oldest:
  "case rollback_release same_day_world of
     (r, w') \<Rightarrow>
       r = Inr None
       \<and> current_rel (self w') = Some (gen_rel (at_time 2 40 0) day0)
       \<and> current_rel (self w') \<noteq> Some (gen_rel (at_time 2 45 0) day0)
       \<and> fst (current_release (w'\<lparr>clock_now := at_time 23 59 59\<rparr>)) = gen_rel (at_time 2 40 0) day0
       \<and> fst (current_release_path (w'\<lparr>clock_now := at_time 23 59 59\<rparr>))
           = app @ [''releases'', gen_rel (at_time 2 40 0) day0]"
  by (simp add: model_defs example_defs)

subsection \<open>C10: what the compensating action deletes\<close>

text \<open>
  C10: the action registered by \<open>create_release\<close> is \<open>revert_release\<close>, which removes the
  path that \<^verbatim>\<open>env.base_dir\<close> holds when it runs, not a path kept at registration.
  After a successful \<open>create_release\<close> on an instance with an empty stack,
  \<^verbatim>\<open>env.base_dir\<close> is the new release path and the stack holds the one action. Let the
  body fail in a world \<open>w2\<close> whose stack is still that one and where \<^verbatim>\<open>env.base_dir\<close> is
  \<open>p\<close>: \<open>revert_release\<close>, and so the drain at \<^verbatim>\<open>__exit__\<close>, removes \<open>p\<close> and what is
  below it, and nothing else. The new release directory is removed when \<open>p\<close> is still
  its path (or a prefix of it), and is left as the body left it otherwise.
\<close>

theorem revert_release_deletes_env_base_dir:
  assumes created: "create_release w0 = (Inr (), w1)"
      and empty: "rollback_stack (self w0) = []"
      and stack: "rollback_stack (self w2) = rollback_stack (self w1)"
      and env: "env_base_dir w2 = Some p" and p: "p \<noteq> []"
  shows "env_base_dir w1 = Some (fst (current_release_path w0))
         \<and> rollback_stack (self w1) = [Revert_release]
         \<and> revert_release w2 = (Inr (), w2\<lparr>host := filter (\<lambda>(q, n). \<not> prefix p q) (host w2)\<rparr>)
         \<and> fst (release_exit (Some e) w2) = Inr ()
         \<and> host (snd (release_exit (Some e) w2)) = filter (\<lambda>(q, n). \<not> prefix p q) (host w2)
         \<and> lookup (host (snd (release_exit (Some e) w2))) (fst (current_release_path w0))
             = (if prefix p (fst (current_release_path w0)) then None
                else lookup (host w2) (fst (current_release_path w0)))"
proof -
  have reg: "env_base_dir w1 = Some (fst (current_release_path w0))"
            "rollback_stack (self w1) = [Revert_release]"
    using create_release_registers [OF created] empty by simp_all
  then have s2: "rollback_stack (self w2) = [Revert_release]" using stack by simp
  have d: "host (snd (release_exit (Some e) w2)) = filter (\<lambda>(q, n). \<not> prefix p q) (host w2)"
    by (rule release_exit_failed_drains(2) [OF s2 env p])
  have "fst (release_exit (Some e) w2) = Inr ()"
    by (rule release_exit_failed_drains(1) [OF s2 env p])
  moreover have "lookup (host (snd (release_exit (Some e) w2))) (fst (current_release_path w0))
             = (if prefix p (fst (current_release_path w0)) then None
                else lookup (host w2) (fst (current_release_path w0)))"
    unfolding d using p by (rule lookup_rm_rf)
  ultimately show ?thesis using reg d revert_release_effect [OF env p] by simp
qed

theorem revert_release_deletes_env_base_dir_witness:
  "create_release ready_world = (Inr (), created_world)
   \<and> rollback_stack (self ready_world) = []
   \<and> env_base_dir created_world = Some (app @ [''releases'', ''2013-01-05.10800''])
   \<and> lookup (host created_world) (app @ [''releases'', ''2013-01-05.10800'']) = Some Dir
   \<and> lookup (host (snd (release_exit (Some (Exception ''build failed'')) created_world)))
        (app @ [''releases'', ''2013-01-05.10800'']) = None
   \<and> lookup (host (snd (release_exit (Some (Exception ''build failed''))
                          (created_world\<lparr>env_base_dir := Some (app @ [''build''])\<rparr>))))
        (app @ [''releases'', ''2013-01-05.10800'']) = Some Dir"
proof -
  let ?d = "app @ [''releases'', ''2013-01-05.10800'']"
  let ?moved = "created_world\<lparr>env_base_dir := Some (app @ [''build''])\<rparr>"
  have created: "create_release ready_world = (Inr (), created_world)"
    by (simp add: created_world_def model_defs example_defs)
  have empty: "rollback_stack (self ready_world) = []"
    by (simp add: model_defs example_defs)
  have d: "fst (current_release_path ready_world) = ?d"
    by (simp add: model_defs example_defs)
  have env: "env_base_dir created_world = Some ?d"
    by (simp add: created_world_def model_defs example_defs)
  have dir: "lookup (host created_world) ?d = Some Dir"
    by (simp add: created_world_def model_defs example_defs)
  have ne: "?d \<noteq> []" and ne': "app @ [''build''] \<noteq> []" by simp_all
  have env': "env_base_dir ?moved = Some (app @ [''build''])" by simp
  have stack': "rollback_stack (self ?moved) = rollback_stack (self created_world)" by simp
  from revert_release_deletes_env_base_dir
         [OF created empty refl env ne, of "Exception ''build failed''"]
  have "lookup (host (snd (release_exit (Some (Exception ''build failed'')) created_world)))
          (fst (current_release_path ready_world))
        = (if prefix ?d (fst (current_release_path ready_world)) then None
           else lookup (host created_world) (fst (current_release_path ready_world)))"
    by blast
  then have same:
    "lookup (host (snd (release_exit (Some (Exception ''build failed'')) created_world))) ?d = None"
    unfolding d by simp
  from revert_release_deletes_env_base_dir
         [OF created empty stack' env' ne', of "Exception ''build failed''"]
  have "lookup (host (snd (release_exit (Some (Exception ''build failed'')) ?moved)))
          (fst (current_release_path ready_world))
        = (if prefix (app @ [''build'']) (fst (current_release_path ready_world)) then None
           else lookup (host ?moved) (fst (current_release_path ready_world)))"
    by blast
  then have moved:
    "lookup (host (snd (release_exit (Some (Exception ''build failed'')) ?moved))) ?d = Some Dir"
    unfolding d using dir by simp
  from created empty env dir same moved show ?thesis by blast
qed

end
